theory Spec2Isabelle
  imports Complex_Main "HOL-Library.Multiset" "HOL-Library.Product_Lexorder" "HOL-Library.Code_Target_Nat"
begin

section \<open>JavaScript strings\<close>

text \<open>
  A JavaScript string is a sequence of UTF-16 code units. The regular expressions of the
  comparator have no \<open>u\<close> flag, so they work on code units, and several of the characters
  they name lie outside Latin-1; a string is therefore a list of code-unit numbers.
  \<open>js\<close> turns an ASCII literal into such a list.
\<close>

type_synonym jstring = "nat list"

definition js :: "string \<Rightarrow> jstring" where
  "js s = map of_char s"

text \<open>The class \<open>\s\<close> of a JavaScript regular expression, which is also what
  \<open>String.prototype.trim\<close> strips: WhiteSpace and LineTerminator.\<close>

definition isSpace :: "nat \<Rightarrow> bool" where
  "isSpace c = (c = 9 \<or> c = 10 \<or> c = 11 \<or> c = 12 \<or> c = 13 \<or> c = 32 \<or> c = 160 \<or>
     c = 5760 \<or> (8192 \<le> c \<and> c \<le> 8202) \<or> c = 8232 \<or> c = 8233 \<or> c = 8239 \<or>
     c = 8287 \<or> c = 12288 \<or> c = 65279)"

text \<open>The class \<open>\w\<close>: \<open>[A-Za-z0-9_]\<close>.\<close>

definition isWordChar :: "nat \<Rightarrow> bool" where
  "isWordChar c = ((65 \<le> c \<and> c \<le> 90) \<or> (97 \<le> c \<and> c \<le> 122) \<or> (48 \<le> c \<and> c \<le> 57) \<or> c = 95)"

definition isDigit :: "nat \<Rightarrow> bool" where
  "isDigit c = (48 \<le> c \<and> c \<le> 57)"

definition skipSpaces :: "jstring \<Rightarrow> jstring" where
  "skipSpaces s = dropWhile isSpace s"

definition trim :: "jstring \<Rightarrow> jstring" where
  "trim s = rev (skipSpaces (rev (skipSpaces s)))"

text \<open>\<open>parts.join(sep)\<close>.\<close>

fun join :: "jstring \<Rightarrow> jstring list \<Rightarrow> jstring" where
  "join sep [] = []"
| "join sep [p] = p"
| "join sep (p # q # ps) = p @ sep @ join sep (q # ps)"

text \<open>\<open>s.split(/\s+/)[0] || ''\<close>: the part of \<open>s\<close> before its first run of white space
  (the empty string when \<open>s\<close> is empty or starts with white space).\<close>

definition firstSplit :: "jstring \<Rightarrow> jstring" where
  "firstSplit s = takeWhile (\<lambda>c. \<not> isSpace c) s"

text \<open>\<open>/^[A-Z0-9_]{1,10}$/.test(w)\<close>.\<close>

definition isCodeChar :: "nat \<Rightarrow> bool" where
  "isCodeChar c = ((65 \<le> c \<and> c \<le> 90) \<or> (48 \<le> c \<and> c \<le> 57) \<or> c = 95)"

definition looksLikeCode :: "jstring \<Rightarrow> bool" where
  "looksLikeCode w = (1 \<le> length w \<and> length w \<le> 10 \<and> list_all isCodeChar w)"

text \<open>The decimal rendering of a non-negative integer, as a template literal gives it.\<close>

function showNat :: "nat \<Rightarrow> jstring" where
  "showNat n = (if n < 10 then [48 + n] else showNat (n div 10) @ [48 + n mod 10])"
  by pat_completeness auto
termination
  by (relation "measure (\<lambda>n. n)") auto

declare showNat.simps [simp del]

section \<open>Text normalization\<close>

text \<open>
  \<open>normalizeForComparison\<close> is a chain of global regular-expression replacements. Each is
  modelled by a scanner that tries a match at the current position and, when there is
  none, copies one code unit and moves on: the leftmost, non-overlapping matches of a
  \<open>/g\<close> replacement. In every pattern a greedy \<open>\s*\<close> is followed by a character that is
  not white space, so backtracking never finds a match the greedy attempt missed.
\<close>

definition isZeroWidth :: "nat \<Rightarrow> bool" where
  "isZeroWidth c = (c = 8203 \<or> c = 8204 \<or> c = 8205 \<or> c = 65279 \<or> c = 8288 \<or> c = 8206 \<or>
     c = 8207 \<or> c = 173)"

definition isControl :: "nat \<Rightarrow> bool" where
  "isControl c = (c \<le> 8 \<or> c = 11 \<or> c = 12 \<or> (14 \<le> c \<and> c \<le> 31) \<or> (127 \<le> c \<and> c \<le> 159))"

definition isUnicodeSpace :: "nat \<Rightarrow> bool" where
  "isUnicodeSpace c = (c = 160 \<or> (8192 \<le> c \<and> c \<le> 8202) \<or> c = 8239 \<or> c = 8287 \<or> c = 12288)"

definition isDashVariant :: "nat \<Rightarrow> bool" where
  "isDashVariant c = ((8208 \<le> c \<and> c \<le> 8213) \<or> c = 8722 \<or> c = 65112 \<or> c = 65123 \<or> c = 65293)"

definition stripZeroWidth :: "jstring \<Rightarrow> jstring" where
  "stripZeroWidth s = filter (\<lambda>c. \<not> isZeroWidth c) s"

definition stripControl :: "jstring \<Rightarrow> jstring" where
  "stripControl s = filter (\<lambda>c. \<not> isControl c) s"

definition unifySpaces :: "jstring \<Rightarrow> jstring" where
  "unifySpaces s = map (\<lambda>c. if isUnicodeSpace c then 32 else c) s"

definition unifyDashes :: "jstring \<Rightarrow> jstring" where
  "unifyDashes s = map (\<lambda>c. if isDashVariant c then 45 else c) s"

text \<open>\<open>\s*-\s*(\w)\<close> read from the code unit after a \<open>\w\<close>: the second word character and
  the text after the match.\<close>

definition matchHyphen :: "jstring \<Rightarrow> (nat \<times> jstring) option" where
  "matchHyphen s =
     (case skipSpaces s of
        [] \<Rightarrow> None
      | d # r \<Rightarrow>
          if d = 45 then
            (case skipSpaces r of
               [] \<Rightarrow> None
             | e # r' \<Rightarrow> if isWordChar e then Some (e, r') else None)
          else None)"

text \<open>\<open>s.replace(/(\w)\s*-\s*(\w)/g, '$1-$2')\<close>.\<close>

function tightenHyphens :: "jstring \<Rightarrow> jstring" where
  "tightenHyphens [] = []"
| "tightenHyphens (c # cs) =
     (if isWordChar c then
        (case matchHyphen cs of
           Some (e, r) \<Rightarrow> c # 45 # e # tightenHyphens r
         | None \<Rightarrow> c # tightenHyphens cs)
      else c # tightenHyphens cs)"
  by pat_completeness auto
termination
proof (relation "measure length")
  show "wf (measure length)" by simp
next
  fix c :: nat and cs x2 x y
  assume "matchHyphen cs = Some x2" and "(x, y) = x2"
  then have m: "matchHyphen cs = Some (x, y)" by simp
  have le: "\<And>s a t. dropWhile isSpace s = a # t \<Longrightarrow> length t < length s"
  proof -
    fix s :: jstring and a t
    assume "dropWhile isSpace s = a # t"
    then have "length (a # t) \<le> length s"
      using length_dropWhile_le [of isSpace s] by simp
    then show "length t < length s" by simp
  qed
  from m obtain d r where d: "dropWhile isSpace cs = d # r" and y: "dropWhile isSpace r = x # y"
    by (auto simp: matchHyphen_def skipSpaces_def split: list.splits if_splits)
  from le [OF d] le [OF y] show "(y, c # cs) \<in> measure length" by simp
qed auto

text \<open>A pattern of the shape \<open>\s*a\s*b\s*\<close> tried at the head of the text: the text after
  the match.\<close>

definition matchPair :: "nat \<Rightarrow> nat \<Rightarrow> jstring \<Rightarrow> jstring option" where
  "matchPair a b s =
     (case skipSpaces s of
        [] \<Rightarrow> None
      | d # r \<Rightarrow>
          if d = a then
            (case skipSpaces r of
               [] \<Rightarrow> None
             | e # r' \<Rightarrow> if e = b then Some (skipSpaces r') else None)
          else None)"

text \<open>\<open>s.replace(/\s*a\s*b\s*/g, 'ab')\<close>: with \<open>-\<close>, \<open>/\<close> the replacement by \<open>'-/'\<close> and
  with \<open>/\<close>, \<open>-\<close> the one by \<open>'/-'\<close>.\<close>

function tightenPair :: "nat \<Rightarrow> nat \<Rightarrow> jstring \<Rightarrow> jstring" where
  "tightenPair a b [] = []"
| "tightenPair a b (c # cs) =
     (case matchPair a b (c # cs) of
        Some r \<Rightarrow> a # b # tightenPair a b r
      | None \<Rightarrow> c # tightenPair a b cs)"
  by pat_completeness auto
termination
proof (relation "measure (\<lambda>(a, b, s). length s)")
  show "wf (measure (\<lambda>(a, b, s). length s))" by simp
next
  fix a b c :: nat and cs r
  assume m: "matchPair a b (c # cs) = Some r"
  have le: "\<And>s x t. dropWhile isSpace s = x # t \<Longrightarrow> length t < length s"
  proof -
    fix s :: jstring and x t
    assume "dropWhile isSpace s = x # t"
    then have "length (x # t) \<le> length s"
      using length_dropWhile_le [of isSpace s] by simp
    then show "length t < length s" by simp
  qed
  from m obtain d u e u' where d: "dropWhile isSpace (c # cs) = d # u"
    and e: "dropWhile isSpace u = e # u'" and r: "r = dropWhile isSpace u'"
    by (auto simp: matchPair_def skipSpaces_def split: list.splits if_splits)
  have "length r \<le> length u'" using r length_dropWhile_le [of isSpace u'] by simp
  with le [OF d] le [OF e] show "((a, b, r), (a, b, c # cs)) \<in> measure (\<lambda>(a, b, s). length s)"
    by simp
qed auto

text \<open>\<open>\s*\/\s*\<close> tried at the head of the text: the text after the match.\<close>

definition matchSlash :: "jstring \<Rightarrow> jstring option" where
  "matchSlash s =
     (case skipSpaces s of
        [] \<Rightarrow> None
      | d # r \<Rightarrow> if d = 47 then Some (skipSpaces r) else None)"

text \<open>\<open>s.replace(/\s*\/\s*/g, '/')\<close>.\<close>

function tightenSlashes :: "jstring \<Rightarrow> jstring" where
  "tightenSlashes [] = []"
| "tightenSlashes (c # cs) =
     (case matchSlash (c # cs) of
        Some r \<Rightarrow> 47 # tightenSlashes r
      | None \<Rightarrow> c # tightenSlashes cs)"
  by pat_completeness auto
termination
proof (relation "measure length")
  show "wf (measure length)" by simp
next
  fix c :: nat and cs r
  assume m: "matchSlash (c # cs) = Some r"
  from m obtain d u where d: "dropWhile isSpace (c # cs) = d # u" and r: "r = dropWhile isSpace u"
    by (auto simp: matchSlash_def skipSpaces_def split: list.splits if_splits)
  have "length (d # u) \<le> length (c # cs)"
    using length_dropWhile_le [of isSpace "c # cs"] d by simp
  moreover have "length r \<le> length u" using r length_dropWhile_le [of isSpace u] by simp
  ultimately show "(r, c # cs) \<in> measure length" by simp
qed auto

text \<open>\<open>s.replace(/ {2,}/g, ' ')\<close>.\<close>

function collapseSpaces :: "jstring \<Rightarrow> jstring" where
  "collapseSpaces [] = []"
| "collapseSpaces [c] = [c]"
| "collapseSpaces (c # d # cs) =
     (if c = 32 \<and> d = 32 then 32 # collapseSpaces (dropWhile (\<lambda>x. x = 32) cs)
      else c # collapseSpaces (d # cs))"
  by pat_completeness auto
termination
proof (relation "measure length")
  show "wf (measure length)" by simp
next
  fix c d :: nat and cs :: jstring
  have "length (dropWhile (\<lambda>x. x = 32) cs) \<le> length cs" by (rule length_dropWhile_le)
  then show "(dropWhile (\<lambda>x. x = 32) cs, c # d # cs) \<in> measure length" by simp
qed auto

text \<open>The function of the source; \<open>if (!text) return ''\<close> is the empty string for the empty
  string, which the chain gives as well.\<close>

definition normalizeForComparison :: "jstring \<Rightarrow> jstring" where
  "normalizeForComparison text =
     (if text = [] then []
      else
        let s = stripZeroWidth text;
            s = stripControl s;
            s = unifySpaces s;
            s = unifyDashes s;
            s = tightenHyphens s;
            s = tightenPair 45 47 s;
            s = tightenPair 47 45 s;
            s = tightenSlashes s;
            s = trim (collapseSpaces s)
        in s)"


section \<open>The stored data (database.mjs)\<close>

text \<open>
  \<open>getRows\<close> and \<open>getSections\<close> turn the result sets of two SQL queries into objects. The
  cells of a table row come first; the parser's rows add \<open>isLabel\<close>, the stored rows an id
  and their position. Every text column is written by \<open>insertDocument\<close> as a string
  (\<open>value || ''\<close>), so no field is null.
\<close>

record cells =
  segmentGroup :: jstring
  segmentCode :: jstring
  dataElement :: jstring
  beschreibung :: jstring
  statusCol1 :: jstring
  statusCol2 :: jstring
  bedingung :: jstring

record labelled = cells +
  isLabel :: bool

record row = labelled +
  rowId :: nat
  rowOrder :: nat

record dbSection =
  secId :: nat
  sectionOrder :: nat
  title :: jstring
  pruefidentifikator :: jstring
  kommunikationVon :: jstring
  statusCol1Header :: jstring
  statusCol2Header :: jstring
  pageStart :: nat

text \<open>The two tables the comparator reads: each section with the id of its document, each
  row with the id of its section, in the order of their insertion.\<close>

record database =
  sectionsTable :: "(nat \<times> dbSection) list"
  rowsTable :: "(nat \<times> row) list"

definition getSections :: "database \<Rightarrow> nat \<Rightarrow> dbSection list" where
  "getSections db documentId =
     sort_key sectionOrder (map snd (filter (\<lambda>p. fst p = documentId) (sectionsTable db)))"

definition getRows :: "database \<Rightarrow> nat \<Rightarrow> row list" where
  "getRows db sectionId =
     sort_key rowOrder (map snd (filter (\<lambda>p. fst p = sectionId) (rowsTable db)))"

section \<open>The comparator (comparator.mjs)\<close>

text \<open>
  The repository holds two revisions of the comparator. The first compares raw strings;
  the second passes every compared string through \<open>normalizeForComparison\<close> and is
  otherwise the same text. Both are the definitions below: the parameter \<open>nrm\<close> is
  \<open>normalizeForComparison\<close> for the second revision and the identity for the first.

  A \<open>Map\<close> is an association list in insertion order with distinct keys, a \<open>Set\<close> a
  distinct list in insertion order: both are iterated in that order. Reading a property
  of \<open>undefined\<close> throws a \<open>TypeError\<close>; the two places where the source would do so are
  branches of the model.
\<close>

datatype error = TypeError

datatype diffType = Added | Removed | Modified | Unchanged

record change =
  field :: string
  old :: jstring
  new :: jstring

text \<open>The row diffs of a matched section carry their key; those of a section that is
  added or removed as a whole have none.\<close>

datatype rowDiff =
    RowAdded "jstring option" row
  | RowRemoved "jstring option" row
  | RowModified jstring row row "change list"
  | RowUnchanged jstring row

datatype sectionDiff =
    SecAdded jstring dbSection "rowDiff list"
  | SecRemoved jstring dbSection "rowDiff list"
  | SecMatched diffType jstring dbSection dbSection "change list" "rowDiff list"

record summary =
  added :: nat
  removed :: nat
  modified :: nat
  unchanged :: nat

record comparisonResult =
  summary :: summary
  sectionDiffs :: "sectionDiff list"

fun rd_type :: "rowDiff \<Rightarrow> diffType" where
  "rd_type (RowAdded k r) = Added"
| "rd_type (RowRemoved k r) = Removed"
| "rd_type (RowModified k r1 r2 ch) = Modified"
| "rd_type (RowUnchanged k r) = Unchanged"

fun rd_key :: "rowDiff \<Rightarrow> jstring option" where
  "rd_key (RowAdded k r) = k"
| "rd_key (RowRemoved k r) = k"
| "rd_key (RowModified k r1 r2 ch) = Some k"
| "rd_key (RowUnchanged k r) = Some k"

fun sd_type :: "sectionDiff \<Rightarrow> diffType" where
  "sd_type (SecAdded k s rs) = Added"
| "sd_type (SecRemoved k s rs) = Removed"
| "sd_type (SecMatched t k s1 s2 mc rs) = t"

fun sd_key :: "sectionDiff \<Rightarrow> jstring" where
  "sd_key (SecAdded k s rs) = k"
| "sd_key (SecRemoved k s rs) = k"
| "sd_key (SecMatched t k s1 s2 mc rs) = k"

fun sd_rows :: "sectionDiff \<Rightarrow> rowDiff list" where
  "sd_rows (SecAdded k s rs) = rs"
| "sd_rows (SecRemoved k s rs) = rs"
| "sd_rows (SecMatched t k s1 s2 mc rs) = rs"

text \<open>\<open>new Set(xs)\<close>: the elements of \<open>xs\<close> in the order of their first occurrence.\<close>

definition setAdd :: "'a list \<Rightarrow> 'a \<Rightarrow> 'a list" where
  "setAdd acc x = (if x \<in> set acc then acc else acc @ [x])"

definition jsSet :: "'a list \<Rightarrow> 'a list" where
  "jsSet xs = foldl setAdd [] xs"

text \<open>The first failure of a sequence of steps ends the run, as a thrown exception does.\<close>

fun collect :: "(error + 'a) list \<Rightarrow> error + 'a list" where
  "collect [] = Inr []"
| "collect (Inl e # xs) = Inl e"
| "collect (Inr v # xs) = (case collect xs of Inl e \<Rightarrow> Inl e | Inr vs \<Rightarrow> Inr (v # vs))"

definition rowKey :: "(jstring \<Rightarrow> jstring) \<Rightarrow> row \<Rightarrow> jstring" where
  "rowKey nrm r =
     (if isLabel r then js ''LABEL:'' @ nrm (beschreibung r)
      else
        let sg = nrm (segmentGroup r);
            sc = nrm (segmentCode r);
            de = nrm (dataElement r);
            parts = filter (\<lambda>p. p \<noteq> []) [sg, sc, de]
        in if length parts = 0 then js ''POS:'' @ showNat (rowOrder r)
           else
             let beschr = nrm (beschreibung r);
                 firstWord = firstSplit beschr
             in join (js ''|'')
                  (if looksLikeCode firstWord \<and> de \<noteq> [] then parts @ [firstWord] else parts))"

text \<open>One pass of the loop over the four text fields, and one of the two structural
  checks, of \<open>diffRowFields\<close>.\<close>

definition textChange :: "(jstring \<Rightarrow> jstring) \<Rightarrow> string \<Rightarrow> jstring \<Rightarrow> jstring \<Rightarrow> change list" where
  "textChange nrm f a b =
     (let v1 = trim a; v2 = trim b
      in if nrm v1 \<noteq> nrm v2 then [\<lparr>field = f, old = v1, new = v2\<rparr>] else [])"

definition structChange :: "(jstring \<Rightarrow> jstring) \<Rightarrow> string \<Rightarrow> jstring \<Rightarrow> jstring \<Rightarrow> change list" where
  "structChange nrm f a b = (if nrm a \<noteq> nrm b then [\<lparr>field = f, old = a, new = b\<rparr>] else [])"

definition diffRowFields :: "(jstring \<Rightarrow> jstring) \<Rightarrow> row \<Rightarrow> row \<Rightarrow> change list" where
  "diffRowFields nrm r1 r2 =
     textChange nrm ''beschreibung'' (beschreibung r1) (beschreibung r2) @
     textChange nrm ''statusCol1'' (statusCol1 r1) (statusCol1 r2) @
     textChange nrm ''statusCol2'' (statusCol2 r1) (statusCol2 r2) @
     textChange nrm ''bedingung'' (bedingung r1) (bedingung r2) @
     structChange nrm ''segmentGroup'' (segmentGroup r1) (segmentGroup r2) @
     structChange nrm ''segmentCode'' (segmentCode r1) (segmentCode r2)"

text \<open>\<open>if (!map.has(key)) map.set(key, []); map.get(key).push(row)\<close>.\<close>

fun rowMapPush :: "(jstring \<times> row list) list \<Rightarrow> jstring \<Rightarrow> row \<Rightarrow> (jstring \<times> row list) list" where
  "rowMapPush [] k r = [(k, [r])]"
| "rowMapPush ((k', l) # m) k r =
     (if k' = k then (k', l @ [r]) # m else (k', l) # rowMapPush m k r)"

definition buildRowMap :: "(jstring \<Rightarrow> jstring) \<Rightarrow> row list \<Rightarrow> (jstring \<times> row list) list" where
  "buildRowMap nrm rows = foldl (\<lambda>m r. rowMapPush m (rowKey nrm r) r) [] rows"

text \<open>\<open>map.get(key) || []\<close> and \<open>list[i]\<close>, which is \<open>undefined\<close> past the end.\<close>

definition getList :: "(jstring \<times> row list) list \<Rightarrow> jstring \<Rightarrow> row list" where
  "getList m key = (case map_of m key of None \<Rightarrow> [] | Some l \<Rightarrow> l)"

definition rowAt :: "row list \<Rightarrow> nat \<Rightarrow> row option" where
  "rowAt l i = (if i < length l then Some (l ! i) else None)"

text \<open>The branch \<open>if (r1 && r2)\<close> of the inner loop.\<close>

definition diffPair :: "(jstring \<Rightarrow> jstring) \<Rightarrow> jstring \<Rightarrow> row \<Rightarrow> row \<Rightarrow> rowDiff" where
  "diffPair nrm key r1 r2 =
     (let fieldChanges = diffRowFields nrm r1 r2
      in if length fieldChanges > 0 then RowModified key r1 r2 fieldChanges
         else RowUnchanged key r1)"

text \<open>The body of the inner loop. Its last branch pushes an \<open>added\<close> diff and then reads
  \<open>r2.id\<close>, which throws when \<open>r2\<close> is \<open>undefined\<close> too.\<close>

fun rowDiffAt :: "(jstring \<Rightarrow> jstring) \<Rightarrow> jstring \<Rightarrow> row option \<Rightarrow> row option \<Rightarrow> error + rowDiff" where
  "rowDiffAt nrm key (Some r1) (Some r2) = Inr (diffPair nrm key r1 r2)"
| "rowDiffAt nrm key (Some r1) None = Inr (RowRemoved (Some key) r1)"
| "rowDiffAt nrm key None (Some r2) = Inr (RowAdded (Some key) r2)"
| "rowDiffAt nrm key None None = Inl TypeError"

text \<open>The iterations of the two nested loops of \<open>compareRows\<close>, in order: the key and the
  two rows \<open>list1[i]\<close>, \<open>list2[i]\<close> of each.\<close>

definition rowSlots :: "(jstring \<Rightarrow> jstring) \<Rightarrow> row list \<Rightarrow> row list \<Rightarrow> (jstring \<times> row option \<times> row option) list" where
  "rowSlots nrm rows1 rows2 =
     (let map1 = buildRowMap nrm rows1;
          map2 = buildRowMap nrm rows2;
          allKeys = jsSet (map fst map1 @ map fst map2)
      in concat (map (\<lambda>key.
           let list1 = getList map1 key;
               list2 = getList map2 key;
               maxLen = max (length list1) (length list2)
           in map (\<lambda>i. (key, rowAt list1 i, rowAt list2 i)) [0..<maxLen]) allKeys))"

text \<open>\<open>compareRows\<close>: the loop body at every iteration. The set \<open>matched2\<close> of the source is
  written and never read.\<close>

definition compareRows :: "(jstring \<Rightarrow> jstring) \<Rightarrow> row list \<Rightarrow> row list \<Rightarrow> error + rowDiff list" where
  "compareRows nrm rows1 rows2 =
     collect (map (\<lambda>(key, r1, r2). rowDiffAt nrm key r1 r2) (rowSlots nrm rows1 rows2))"

definition pruefMapAdd :: "(jstring \<times> dbSection) list \<Rightarrow> dbSection \<Rightarrow> (jstring \<times> dbSection) list" where
  "pruefMapAdd m s =
     (let key = pruefidentifikator s
      in if map_of m key = None then m @ [(key, s)] else m)"

definition buildPruefMap :: "dbSection list \<Rightarrow> (jstring \<times> dbSection) list" where
  "buildPruefMap sections = foldl pruefMapAdd [] sections"

definition checkMetaChanges :: "(jstring \<Rightarrow> jstring) \<Rightarrow> dbSection \<Rightarrow> dbSection \<Rightarrow> bool" where
  "checkMetaChanges nrm s1 s2 =
     (nrm (title s1) \<noteq> nrm (title s2) \<or>
      nrm (kommunikationVon s1) \<noteq> nrm (kommunikationVon s2) \<or>
      nrm (statusCol1Header s1) \<noteq> nrm (statusCol1Header s2) \<or>
      nrm (statusCol2Header s1) \<noteq> nrm (statusCol2Header s2))"

definition metaChange :: "(jstring \<Rightarrow> jstring) \<Rightarrow> string \<Rightarrow> jstring \<Rightarrow> jstring \<Rightarrow> change list" where
  "metaChange nrm f a b = (if nrm a \<noteq> nrm b then [\<lparr>field = f, old = a, new = b\<rparr>] else [])"

definition getMetaChanges :: "(jstring \<Rightarrow> jstring) \<Rightarrow> dbSection \<Rightarrow> dbSection \<Rightarrow> change list" where
  "getMetaChanges nrm s1 s2 =
     metaChange nrm ''title'' (title s1) (title s2) @
     metaChange nrm ''kommunikationVon'' (kommunikationVon s1) (kommunikationVon s2) @
     metaChange nrm ''statusCol1Header'' (statusCol1Header s1) (statusCol1Header s2) @
     metaChange nrm ''statusCol2Header'' (statusCol2Header s1) (statusCol2Header s2)"

text \<open>The body of the loop over \<open>allKeys\<close> in \<open>compareDocuments\<close>: the section diff it
  pushes. With neither section the second branch reads \<open>s2.id\<close> of \<open>undefined\<close>.\<close>

definition sectionDiffAt ::
  "(jstring \<Rightarrow> jstring) \<Rightarrow> database \<Rightarrow> jstring \<Rightarrow> dbSection option \<Rightarrow> dbSection option \<Rightarrow> error + sectionDiff" where
  "sectionDiffAt nrm db key o1 o2 =
     (case o1 of
        None \<Rightarrow>
          (case o2 of
             None \<Rightarrow> Inl TypeError
           | Some s2 \<Rightarrow> Inr (SecAdded key s2 (map (RowAdded None) (getRows db (secId s2)))))
      | Some s1 \<Rightarrow>
          (case o2 of
             None \<Rightarrow> Inr (SecRemoved key s1 (map (RowRemoved None) (getRows db (secId s1))))
           | Some s2 \<Rightarrow>
               (case compareRows nrm (getRows db (secId s1)) (getRows db (secId s2)) of
                  Inl e \<Rightarrow> Inl e
                | Inr rowDiffs \<Rightarrow>
                    let hasChanges = list_ex (\<lambda>d. rd_type d \<noteq> Unchanged) rowDiffs;
                        metaChanged = checkMetaChanges nrm s1 s2
                    in Inr (SecMatched (if hasChanges \<or> metaChanged then Modified else Unchanged)
                              key s1 s2
                              (if metaChanged then getMetaChanges nrm s1 s2 else [])
                              rowDiffs))))"

text \<open>Every pushed section diff comes with the increment of the counter of its type.\<close>

definition countDiff :: "summary \<Rightarrow> sectionDiff \<Rightarrow> summary" where
  "countDiff s d =
     (case sd_type d of
        Added \<Rightarrow> s\<lparr>added := added s + 1\<rparr>
      | Removed \<Rightarrow> s\<lparr>removed := removed s + 1\<rparr>
      | Modified \<Rightarrow> s\<lparr>modified := modified s + 1\<rparr>
      | Unchanged \<Rightarrow> s\<lparr>unchanged := unchanged s + 1\<rparr>)"

definition typeOrder :: "diffType \<Rightarrow> nat" where
  "typeOrder t = (case t of Modified \<Rightarrow> 0 | Added \<Rightarrow> 1 | Removed \<Rightarrow> 2 | Unchanged \<Rightarrow> 3)"

text \<open>\<open>compareDocuments\<close>. \<open>Array.prototype.sort\<close> is stable, as the insertion sort
  \<open>sort_key\<close> is.\<close>

definition compareDocuments ::
  "(jstring \<Rightarrow> jstring) \<Rightarrow> database \<Rightarrow> nat \<Rightarrow> nat \<Rightarrow> error + comparisonResult" where
  "compareDocuments nrm db docId1 docId2 =
     (let sections1 = getSections db docId1;
          sections2 = getSections db docId2;
          map1 = buildPruefMap sections1;
          map2 = buildPruefMap sections2;
          allKeys = jsSet (map fst map1 @ map fst map2)
      in case collect (map (\<lambda>key. sectionDiffAt nrm db key (map_of map1 key) (map_of map2 key)) allKeys) of
           Inl e \<Rightarrow> Inl e
         | Inr ds \<Rightarrow>
             Inr \<lparr>summary = foldl countDiff \<lparr>added = 0, removed = 0, modified = 0, unchanged = 0\<rparr> ds,
                  sectionDiffs = sort_key (\<lambda>d. typeOrder (sd_type d)) ds\<rparr>)"

section \<open>The structurer (parser.mjs)\<close>

text \<open>
  \<open>buildSections\<close> filters the fragments of every page, groups them into visual rows
  (\<open>groupIntoRows\<close>) and turns every visual row into seven cells (\<open>parseRow\<close>); the rest
  of its loop body classifies the cells and updates the sections.

  A fragment is what \<open>parsePDF\<close> hands over: a text and four numbers. The numbers are
  doubles; the model has the rational numbers they denote, so it covers the fragments
  whose numbers are finite. Comparing two doubles is exact. The one place where the
  machine rounds is the difference \<open>item.y - currentY\<close> in \<open>groupIntoRows\<close>, and between
  two positions of the content band (30 to 775) the rounding cannot cross the threshold:
  the difference of two doubles within a factor of two of each other is exact, and
  otherwise it is above 30.

  \<open>String.prototype.toLowerCase\<close> follows the Unicode case tables; it is the parameter
  \<open>lc\<close> of the predicates that use it. \<open>lowerLatin1\<close> is what it does on a string whose
  code units are all below 256: the letters A to Z and U+00C0 to U+00DE, without the
  multiplication sign U+00D7, move up by 32. It stands for \<open>lc\<close> in the examples, whose
  texts are such strings.
\<close>

subsection \<open>Fragments, visual rows and columns\<close>

record item =
  i_text :: jstring
  i_x :: rat
  i_y :: rat
  i_width :: rat
  i_fontSize :: rat

record page =
  pg_pageNum :: nat
  pg_items :: "item list"

definition COL_EDIFACT_MAX :: rat where "COL_EDIFACT_MAX = 170"
definition COL_BESCHREIBUNG_MAX :: rat where "COL_BESCHREIBUNG_MAX = 305"
definition COL_STATUS1_MAX :: rat where "COL_STATUS1_MAX = 370"
definition COL_STATUS2_MAX :: rat where "COL_STATUS2_MAX = 435"
definition SEG_GROUP_MAX :: rat where "SEG_GROUP_MAX = 88"
definition SEG_CODE_MAX :: rat where "SEG_CODE_MAX = 118"
definition ROW_Y_THRESHOLD :: rat where "ROW_Y_THRESHOLD = 5"
definition HEADER_Y_MIN :: rat where "HEADER_Y_MIN = 775"
definition FOOTER_Y_MAX :: rat where "FOOTER_Y_MAX = 30"

text \<open>\<open>[...items].sort((a, b) => b.y - a.y || a.x - b.x)\<close>: the sort is stable, and the
  comparator orders by descending \<open>y\<close>, then ascending \<open>x\<close>.\<close>

definition itemOrder :: "item \<Rightarrow> rat \<times> rat" where
  "itemOrder a = (- i_y a, i_x a)"

text \<open>The variables of the loop of \<open>groupIntoRows\<close> (with the prefix \<open>g_\<close>), its body and
  the function.\<close>

record groupState =
  g_rows :: "item list list"
  g_currentRow :: "item list"
  g_currentY :: "rat option"

definition pushCurrent :: "groupState \<Rightarrow> item list list" where
  "pushCurrent g = (if g_currentRow g \<noteq> [] then g_rows g @ [g_currentRow g] else g_rows g)"

definition groupStep :: "groupState \<Rightarrow> item \<Rightarrow> groupState" where
  "groupStep g item =
     (if (case g_currentY g of None \<Rightarrow> True | Some currentY \<Rightarrow> \<bar>i_y item - currentY\<bar> > ROW_Y_THRESHOLD)
      then \<lparr>g_rows = pushCurrent g, g_currentRow = [item], g_currentY = Some (i_y item)\<rparr>
      else g\<lparr>g_currentRow := g_currentRow g @ [item]\<rparr>)"

definition groupIntoRows :: "item list \<Rightarrow> item list list" where
  "groupIntoRows items =
     pushCurrent (foldl groupStep \<lparr>g_rows = [], g_currentRow = [], g_currentY = None\<rparr>
                    (sort_key itemOrder items))"

datatype column = Edifact | Beschreibung | Status1 | Status2 | Bedingung

datatype edifactSub = SegmentGroup | SegmentCode | DataElement

definition classifyColumn :: "rat \<Rightarrow> column" where
  "classifyColumn x =
     (if x < COL_EDIFACT_MAX then Edifact
      else if x < COL_BESCHREIBUNG_MAX then Beschreibung
      else if x < COL_STATUS1_MAX then Status1
      else if x < COL_STATUS2_MAX then Status2
      else Bedingung)"

definition classifyEdifactSub :: "rat \<Rightarrow> edifactSub" where
  "classifyEdifactSub x =
     (if x < SEG_GROUP_MAX then SegmentGroup
      else if x < SEG_CODE_MAX then SegmentCode
      else DataElement)"

text \<open>A parsed row: the seven cells and the \<open>y\<close> of the first fragment of the visual row.
  \<open>parseRow\<close> fills the three cells of the first column as it goes
  (\<open>cell ? cell + ' ' + text : text\<close>) and collects the texts of the other columns in
  \<open>parts\<close>, which it joins at the end.\<close>

record parsedRow = cells +
  rowY :: rat

record rowParts =
  partsBeschreibung :: "jstring list"
  partsStatus1 :: "jstring list"
  partsStatus2 :: "jstring list"
  partsBedingung :: "jstring list"

definition addText :: "jstring \<Rightarrow> jstring \<Rightarrow> jstring" where
  "addText cell t = (if cell \<noteq> [] then cell @ js '' '' @ t else t)"

definition parseItem :: "parsedRow \<times> rowParts \<Rightarrow> item \<Rightarrow> parsedRow \<times> rowParts" where
  "parseItem acc item =
     (case acc of (row, parts) \<Rightarrow>
        (case classifyColumn (i_x item) of
           Edifact \<Rightarrow>
             (case classifyEdifactSub (i_x item) of
                SegmentGroup \<Rightarrow> (row\<lparr>segmentGroup := addText (segmentGroup row) (i_text item)\<rparr>, parts)
              | SegmentCode \<Rightarrow> (row\<lparr>segmentCode := addText (segmentCode row) (i_text item)\<rparr>, parts)
              | DataElement \<Rightarrow> (row\<lparr>dataElement := addText (dataElement row) (i_text item)\<rparr>, parts))
         | Beschreibung \<Rightarrow> (row, parts\<lparr>partsBeschreibung := partsBeschreibung parts @ [i_text item]\<rparr>)
         | Status1 \<Rightarrow> (row, parts\<lparr>partsStatus1 := partsStatus1 parts @ [i_text item]\<rparr>)
         | Status2 \<Rightarrow> (row, parts\<lparr>partsStatus2 := partsStatus2 parts @ [i_text item]\<rparr>)
         | Bedingung \<Rightarrow> (row, parts\<lparr>partsBedingung := partsBedingung parts @ [i_text item]\<rparr>)))"

definition parseRow :: "item list \<Rightarrow> parsedRow" where
  "parseRow items =
     (case foldl parseItem
             (\<lparr>segmentGroup = [], segmentCode = [], dataElement = [], beschreibung = [],
               statusCol1 = [], statusCol2 = [], bedingung = [],
               rowY = (case items of [] \<Rightarrow> 0 | item # _ \<Rightarrow> i_y item)\<rparr>,
              \<lparr>partsBeschreibung = [], partsStatus1 = [], partsStatus2 = [], partsBedingung = []\<rparr>)
             items of
        (row, parts) \<Rightarrow>
          row\<lparr>beschreibung := join (js '' '') (partsBeschreibung parts),
              statusCol1 := join (js '' '') (partsStatus1 parts),
              statusCol2 := join (js '' '') (partsStatus2 parts),
              bedingung := join (js '' '') (partsBedingung parts)\<rparr>)"

subsection \<open>Classification of the parsed rows\<close>

definition lowerLatin1 :: "jstring \<Rightarrow> jstring" where
  "lowerLatin1 s =
     map (\<lambda>c. if (65 \<le> c \<and> c \<le> 90) \<or> (192 \<le> c \<and> c \<le> 222 \<and> c \<noteq> 215) then c + 32 else c) s"

text \<open>\<open>s.includes(sub)\<close>.\<close>

fun startsWith :: "jstring \<Rightarrow> jstring \<Rightarrow> bool" where
  "startsWith s [] = True"
| "startsWith [] (p # ps) = False"
| "startsWith (c # cs) (p # ps) = (c = p \<and> startsWith cs ps)"

fun jsIncludes :: "jstring \<Rightarrow> jstring \<Rightarrow> bool" where
  "jsIncludes [] sub = (sub = [])"
| "jsIncludes (c # cs) sub = (startsWith (c # cs) sub \<or> jsIncludes cs sub)"

text \<open>\<open>\d{n}\<close> at the head of the text: the text after the digits.\<close>

definition digitsN :: "nat \<Rightarrow> jstring \<Rightarrow> jstring option" where
  "digitsN n s = (if n \<le> length s \<and> list_all isDigit (take n s) then Some (drop n s) else None)"

text \<open>\<open>/^\d{5}$/.test(t)\<close> and \<open>/^\d{5}\s+\d{5}$/.test(t)\<close>.\<close>

definition testFiveDigits :: "jstring \<Rightarrow> bool" where
  "testFiveDigits t = (digitsN 5 t = Some [])"

definition testTwoCodes :: "jstring \<Rightarrow> bool" where
  "testTwoCodes t =
     (case digitsN 5 t of
        None \<Rightarrow> False
      | Some r \<Rightarrow>
          (case r of
             [] \<Rightarrow> False
           | c # r' \<Rightarrow> isSpace c \<and> digitsN 5 (skipSpaces r') = Some []))"

text \<open>\<open>SEGMENT_GROUP_RE = /^SG\d+$/\<close>, \<open>KNOWN_SEGMENTS\<close> and \<open>/^\d{4,5}$/\<close>.\<close>

definition testSegmentGroup :: "jstring \<Rightarrow> bool" where
  "testSegmentGroup t =
     (case t of
        s # g # d # ds \<Rightarrow> s = 83 \<and> g = 71 \<and> list_all isDigit (d # ds)
      | _ \<Rightarrow> False)"

definition KNOWN_SEGMENTS :: "jstring list" where
  "KNOWN_SEGMENTS = map js
     [''UNH'', ''BGM'', ''DTM'', ''NAD'', ''CTA'', ''COM'', ''CNI'', ''LOC'',
      ''STS'', ''RFF'', ''FTX'', ''EQD'', ''GID'', ''UNT'', ''DOC'', ''MEA'',
      ''QTY'', ''TDT'', ''SEQ'', ''PCI'', ''GIN'', ''IDE'', ''DGS'']"

definition testElementCode :: "jstring \<Rightarrow> bool" where
  "testElementCode t = ((length t = 4 \<or> length t = 5) \<and> list_all isDigit t)"

text \<open>The words the classification looks for; \<open>252\<close> is the code unit of u-umlaut.\<close>

definition markerWord :: jstring where
  "markerWord = js ''pr'' @ [252] @ js ''fidentifikator''"

definition statusWords :: "jstring list" where
  "statusWords =
     [js ''meldung'', js ''status'', js ''antwort'', js ''bestellung'', js ''mitteilung'',
      js ''information'', js ''konfiguration'', js ''meldung'', [252] @ js ''bermittlung'']"

definition isTableHeader :: "(jstring \<Rightarrow> jstring) \<Rightarrow> 'a cells_scheme \<Rightarrow> bool" where
  "isTableHeader lc row =
     (let combined = lc (segmentGroup row @ js '' '' @ beschreibung row)
      in jsIncludes combined (js ''edifact'') \<and> jsIncludes combined (js ''struktur''))"

definition isPruefidentifikatorHeader :: "(jstring \<Rightarrow> jstring) \<Rightarrow> 'a cells_scheme \<Rightarrow> bool" where
  "isPruefidentifikatorHeader lc row =
     (if \<not> jsIncludes (lc (beschreibung row)) markerWord then False
      else
        let hasNumericId =
              (testFiveDigits (trim (statusCol1 row)) \<or>
               testFiveDigits (trim (statusCol2 row)) \<or>
               testTwoCodes (trim (statusCol1 row)) \<or>
               testTwoCodes (trim (statusCol2 row)))
        in hasNumericId)"

definition isKommunikationVon :: "(jstring \<Rightarrow> jstring) \<Rightarrow> 'a cells_scheme \<Rightarrow> bool" where
  "isKommunikationVon lc row = jsIncludes (lc (beschreibung row)) (js ''kommunikation von'')"

definition isStatusColumnHeader :: "(jstring \<Rightarrow> jstring) \<Rightarrow> 'a cells_scheme \<Rightarrow> bool" where
  "isStatusColumnHeader lc row =
     (let s1 = lc (statusCol1 row);
          noEdifact = (segmentGroup row = [] \<and> segmentCode row = [])
      in noEdifact \<and> list_ex (\<lambda>w. jsIncludes s1 w) statusWords)"

definition hasEdifactContent :: "'a cells_scheme \<Rightarrow> bool" where
  "hasEdifactContent row =
     (testSegmentGroup (segmentGroup row) \<or>
      segmentCode row \<in> set KNOWN_SEGMENTS \<or>
      testElementCode (trim (dataElement row)))"

definition isDataRow :: "'a cells_scheme \<Rightarrow> bool" where
  "isDataRow row =
     (hasEdifactContent row \<or> (segmentGroup row \<noteq> [] \<and> segmentCode row \<noteq> []))"

definition isContinuationRow :: "'a cells_scheme \<Rightarrow> bool" where
  "isContinuationRow row =
     (segmentGroup row = [] \<and> segmentCode row = [] \<and> dataElement row = [] \<and>
      (beschreibung row \<noteq> [] \<or> statusCol1 row \<noteq> [] \<or> statusCol2 row \<noteq> [] \<or>
       bedingung row \<noteq> []))"

definition isSectionLabel :: "'a cells_scheme \<Rightarrow> bool" where
  "isSectionLabel row =
     (segmentGroup row = [] \<and> segmentCode row = [] \<and> dataElement row = [] \<and>
      beschreibung row \<noteq> [] \<and> statusCol1 row = [] \<and> statusCol2 row = [])"

text \<open>A section as the parser builds it, and the variables of \<open>buildSections\<close> (with the
  prefix \<open>st_\<close>). \<open>lastRow\<close>
  is a reference to an element of \<open>rows\<close>: its index.\<close>

record parsedSection =
  p_title :: jstring
  p_pruefidentifikator :: "jstring list"
  p_kommunikationVon :: "jstring list"
  p_statusCol1Header :: jstring
  p_statusCol2Header :: jstring
  p_pageStart :: nat
  p_rows :: "labelled list"

record buildState =
  st_sections :: "parsedSection list"
  st_current :: "parsedSection option"
  st_rows :: "labelled list"
  st_lastRow :: "nat option"
  st_pendingTitle :: jstring

definition initialState :: buildState where
  "initialState = \<lparr>st_sections = [], st_current = None, st_rows = [], st_lastRow = None, st_pendingTitle = []\<rparr>"

definition finalizeSection :: "buildState \<Rightarrow> buildState" where
  "finalizeSection st =
     (case st_current st of
        None \<Rightarrow> st
      | Some cur \<Rightarrow>
          st\<lparr>st_sections := st_sections st @ [cur\<lparr>p_rows := st_rows st\<rparr>], st_rows := [], st_lastRow := None\<rparr>)"

text \<open>\<open>[parsed.statusCol1, parsed.statusCol2].filter(Boolean).map(s => s.trim())\<close>.\<close>

definition statusValues :: "'a cells_scheme \<Rightarrow> jstring list" where
  "statusValues parsed = map trim (filter (\<lambda>s. s \<noteq> []) [statusCol1 parsed, statusCol2 parsed])"

text \<open>\<open>target += ' ' + text.trim()\<close> when \<open>text\<close> is not empty.\<close>

definition appendText :: "jstring \<Rightarrow> jstring \<Rightarrow> jstring" where
  "appendText target t = (if t \<noteq> [] then target @ js '' '' @ trim t else target)"

definition continueRow :: "labelled \<Rightarrow> 'a cells_scheme \<Rightarrow> labelled" where
  "continueRow r parsed =
     r\<lparr>beschreibung := appendText (beschreibung r) (beschreibung parsed),
       statusCol1 := appendText (statusCol1 r) (statusCol1 parsed),
       statusCol2 := appendText (statusCol2 r) (statusCol2 parsed),
       bedingung := appendText (bedingung r) (bedingung parsed)\<rparr>"

definition dataRowOf :: "'a cells_scheme \<Rightarrow> labelled" where
  "dataRowOf parsed =
     \<lparr>segmentGroup = trim (segmentGroup parsed), segmentCode = trim (segmentCode parsed),
      dataElement = trim (dataElement parsed), beschreibung = trim (beschreibung parsed),
      statusCol1 = trim (statusCol1 parsed), statusCol2 = trim (statusCol2 parsed),
      bedingung = trim (bedingung parsed), isLabel = False\<rparr>"

definition labelRowOf :: "'a cells_scheme \<Rightarrow> labelled" where
  "labelRowOf parsed =
     \<lparr>segmentGroup = [], segmentCode = [], dataElement = [],
      beschreibung = trim (beschreibung parsed), statusCol1 = [], statusCol2 = [],
      bedingung = [], isLabel = True\<rparr>"

definition continueLast :: "buildState \<Rightarrow> 'a cells_scheme \<Rightarrow> buildState" where
  "continueLast st parsed =
     (case st_lastRow st of
        None \<Rightarrow> st
      | Some i \<Rightarrow> st\<lparr>st_rows := (st_rows st)[i := continueRow (st_rows st ! i) parsed]\<rparr>)"

text \<open>The body of the loop over the parsed rows of a page: the chain of guards of
  \<open>buildSections\<close>, each ending in \<open>continue\<close>. The guards for the two kinds of metadata
  rows ask for a current section and the next guard leaves when there is none, so the
  chain after the section header splits on \<open>current\<close> first.\<close>

definition processRow :: "(jstring \<Rightarrow> jstring) \<Rightarrow> nat \<Rightarrow> buildState \<Rightarrow> 'a cells_scheme \<Rightarrow> buildState" where
  "processRow lc pageNum st parsed =
     (if isTableHeader lc parsed then st
      else if isPruefidentifikatorHeader lc parsed then
        (let newPruef = statusValues parsed;
             newPruefKey = join (js '','') newPruef;
             currentPruefKey =
               (case st_current st of None \<Rightarrow> [] | Some cur \<Rightarrow> join (js '','') (p_pruefidentifikator cur))
         in if st_current st \<noteq> None \<and> newPruefKey = currentPruefKey then st
            else (finalizeSection st)
                   \<lparr>st_current := Some \<lparr>p_title = trim (st_pendingTitle st), p_pruefidentifikator = newPruef,
                                      p_kommunikationVon = [], p_statusCol1Header = [],
                                      p_statusCol2Header = [], p_pageStart = pageNum, p_rows = []\<rparr>,
                     st_pendingTitle := [],
                     st_lastRow := None\<rparr>)
      else
        (case st_current st of
           None \<Rightarrow>
             if beschreibung parsed \<noteq> [] \<and> segmentGroup parsed = []
             then st\<lparr>st_pendingTitle := beschreibung parsed\<rparr> else st
         | Some cur \<Rightarrow>
             if isKommunikationVon lc parsed then
               (if p_kommunikationVon cur = []
                then st\<lparr>st_current := Some (cur\<lparr>p_kommunikationVon := statusValues parsed\<rparr>)\<rparr>
                else st)
             else if isStatusColumnHeader lc parsed then
               (if p_statusCol1Header cur = []
                then st\<lparr>st_current := Some (cur\<lparr>p_statusCol1Header := trim (statusCol1 parsed),
                                                p_statusCol2Header := trim (statusCol2 parsed)\<rparr>)\<rparr>
                else st)
             else if isDataRow parsed then
               st\<lparr>st_rows := st_rows st @ [dataRowOf parsed], st_lastRow := Some (length (st_rows st))\<rparr>
             else if isContinuationRow parsed \<and> st_lastRow st \<noteq> None then continueLast st parsed
             else if isSectionLabel parsed then
               st\<lparr>st_rows := st_rows st @ [labelRowOf parsed], st_lastRow := Some (length (st_rows st)),
                  st_pendingTitle := beschreibung parsed\<rparr>
             else st))"

text \<open>The loop over the pages: the fragments between footer and header, grouped and
  parsed (a page without such fragments is skipped); then
  \<open>finalizeSection(); return sections\<close>.\<close>

definition contentItems :: "item list \<Rightarrow> item list" where
  "contentItems items = filter (\<lambda>item. i_y item < HEADER_Y_MIN \<and> i_y item > FOOTER_Y_MAX) items"

definition processPage :: "(jstring \<Rightarrow> jstring) \<Rightarrow> buildState \<Rightarrow> page \<Rightarrow> buildState" where
  "processPage lc st pg =
     (if contentItems (pg_items pg) = [] then st
      else foldl (processRow lc (pg_pageNum pg)) st (map parseRow (groupIntoRows (contentItems (pg_items pg)))))"

definition buildSections :: "(jstring \<Rightarrow> jstring) \<Rightarrow> page list \<Rightarrow> parsedSection list" where
  "buildSections lc allPages = st_sections (finalizeSection (foldl (processPage lc) initialState allPages))"

section \<open>Notions of the specification\<close>

text \<open>
  The statements below speak of the rows that share a compound key, of the positional
  pairing of two such lists, of the fields a pair is compared on, of the rows a row diff
  stands for, and of a copy of a stored document. These definitions follow the words of
  the specification; the theorems compare them with the definitions taken from the code.
\<close>

definition rowsWithKey :: "(jstring \<Rightarrow> jstring) \<Rightarrow> jstring \<Rightarrow> row list \<Rightarrow> row list" where
  "rowsWithKey nrm k rows = filter (\<lambda>r. rowKey nrm r = k) rows"

text \<open>Index 0 with index 0, index 1 with index 1, and so on; where one side runs out, the
  remaining rows of the longer side one by one.\<close>

definition positionalDiffs :: "(jstring \<Rightarrow> jstring) \<Rightarrow> jstring \<Rightarrow> row list \<Rightarrow> row list \<Rightarrow> rowDiff list" where
  "positionalDiffs nrm k l1 l2 =
     map (\<lambda>(r1, r2). diffPair nrm k r1 r2) (zip l1 l2) @
     map (RowRemoved (Some k)) (drop (length l2) l1) @
     map (RowAdded (Some k)) (drop (length l1) l2)"

text \<open>The compared fields: the four text fields after trimming and normalization, the two
  structural fields after normalization.\<close>

definition fieldsEqual :: "(jstring \<Rightarrow> jstring) \<Rightarrow> row \<Rightarrow> row \<Rightarrow> bool" where
  "fieldsEqual nrm r1 r2 =
     (nrm (trim (beschreibung r1)) = nrm (trim (beschreibung r2)) \<and>
      nrm (trim (statusCol1 r1)) = nrm (trim (statusCol1 r2)) \<and>
      nrm (trim (statusCol2 r1)) = nrm (trim (statusCol2 r2)) \<and>
      nrm (trim (bedingung r1)) = nrm (trim (bedingung r2)) \<and>
      nrm (segmentGroup r1) = nrm (segmentGroup r2) \<and>
      nrm (segmentCode r1) = nrm (segmentCode r2))"

text \<open>The rows a row diff stores: the old row of a \<open>removed\<close>, a \<open>modified\<close> and an
  \<open>unchanged\<close> diff, the new row of an \<open>added\<close> and a \<open>modified\<close> diff.\<close>

fun rd_old :: "rowDiff \<Rightarrow> row list" where
  "rd_old (RowAdded k r) = []"
| "rd_old (RowRemoved k r) = [r]"
| "rd_old (RowModified k r1 r2 ch) = [r1]"
| "rd_old (RowUnchanged k r) = [r]"

fun rd_new :: "rowDiff \<Rightarrow> row list" where
  "rd_new (RowAdded k r) = [r]"
| "rd_new (RowRemoved k r) = []"
| "rd_new (RowModified k r1 r2 ch) = [r2]"
| "rd_new (RowUnchanged k r) = []"

definition rd_rows :: "rowDiff \<Rightarrow> row list" where
  "rd_rows d = rd_old d @ rd_new d"

text \<open>A copy of a stored document has the same sections with the same rows; the database
  gives every section and every row an id of its own.\<close>

definition sameRow :: "row \<Rightarrow> row \<Rightarrow> bool" where
  "sameRow r r' = (r' = r\<lparr>rowId := rowId r'\<rparr>)"

definition copyOf :: "database \<Rightarrow> dbSection \<Rightarrow> dbSection \<Rightarrow> bool" where
  "copyOf db s s' =
     (s' = s\<lparr>secId := secId s'\<rparr> \<and>
      list_all2 sameRow (getRows db (secId s)) (getRows db (secId s')))"

definition sectionKeys :: "dbSection list \<Rightarrow> jstring list" where
  "sectionKeys ss = map pruefidentifikator ss"

definition firstWithKey :: "jstring \<Rightarrow> dbSection list \<Rightarrow> dbSection option" where
  "firstWithKey k ss = find (\<lambda>s. pruefidentifikator s = k) ss"

text \<open>The keys the two loops run over, and the section diff pushed for a key.\<close>

definition allRowKeys :: "(jstring \<Rightarrow> jstring) \<Rightarrow> row list \<Rightarrow> row list \<Rightarrow> jstring list" where
  "allRowKeys nrm rows1 rows2 = jsSet (map fst (buildRowMap nrm rows1) @ map fst (buildRowMap nrm rows2))"

text \<open>The pairs of an old and a new row that are equal on the compared fields: key by key,
  the rows at the same position among the old and among the new rows with the key.\<close>

definition unchangedPairs :: "(jstring \<Rightarrow> jstring) \<Rightarrow> row list \<Rightarrow> row list \<Rightarrow> (row \<times> row) list" where
  "unchangedPairs nrm rows1 rows2 =
     concat (map (\<lambda>k. filter (\<lambda>(r1, r2). fieldsEqual nrm r1 r2)
                          (zip (rowsWithKey nrm k rows1) (rowsWithKey nrm k rows2)))
               (allRowKeys nrm rows1 rows2))"

definition allSectionKeys :: "database \<Rightarrow> nat \<Rightarrow> nat \<Rightarrow> jstring list" where
  "allSectionKeys db d1 d2 =
     jsSet (map fst (buildPruefMap (getSections db d1)) @ map fst (buildPruefMap (getSections db d2)))"

definition sectionDiffOf :: "(jstring \<Rightarrow> jstring) \<Rightarrow> database \<Rightarrow> nat \<Rightarrow> nat \<Rightarrow> jstring \<Rightarrow> sectionDiff" where
  "sectionDiffOf nrm db d1 d2 k =
     projr (sectionDiffAt nrm db k (firstWithKey k (getSections db d1)) (firstWithKey k (getSections db d2)))"

text \<open>The words of the classification of a section-header row: the description contains
  the marker word, and a status field is exactly five digits or two five-digit codes
  separated by white space.\<close>

definition contains :: "jstring \<Rightarrow> jstring \<Rightarrow> bool" where
  "contains s sub = (\<exists>p q. s = p @ sub @ q)"

definition isFiveDigitCode :: "jstring \<Rightarrow> bool" where
  "isFiveDigitCode t = (length t = 5 \<and> list_all isDigit t)"

definition isTwoSpacedCodes :: "jstring \<Rightarrow> bool" where
  "isTwoSpacedCodes t =
     (\<exists>a sep b. t = a @ sep @ b \<and> isFiveDigitCode a \<and> sep \<noteq> [] \<and> list_all isSpace sep \<and>
        isFiveDigitCode b)"

definition hasCodeShape :: "jstring \<Rightarrow> bool" where
  "hasCodeShape t = (isFiveDigitCode t \<or> isTwoSpacedCodes t)"


text \<open>Every replacement of the normalization after the first four only deletes white space:
  \<open>wsdel s t\<close> says that \<open>t\<close> is \<open>s\<close> with some white-space code units deleted.\<close>

inductive wsdel :: "jstring \<Rightarrow> jstring \<Rightarrow> bool" where
  nil: "wsdel [] []"
| keep: "wsdel s t \<Longrightarrow> wsdel (c # s) (c # t)"
| del: "isSpace c \<Longrightarrow> wsdel s t \<Longrightarrow> wsdel (c # s) t"

inductive_cases wsdel_NilE: "wsdel [] u"
inductive_cases wsdel_ConsE: "wsdel (c # s) u"

text \<open>What the last two steps establish: no two adjacent plain spaces, and no white space
  at either end. What the first four establish: none of the characters they delete or
  replace. \<open>unifyChars\<close> is the first four steps, \<open>normChain\<close> the whole chain.\<close>

fun noDouble :: "jstring \<Rightarrow> bool" where
  "noDouble [] = True"
| "noDouble [c] = True"
| "noDouble (c # d # cs) = (\<not> (c = 32 \<and> d = 32) \<and> noDouble (d # cs))"

definition trimmed :: "jstring \<Rightarrow> bool" where
  "trimmed s = (s = [] \<or> (\<not> isSpace (hd s) \<and> \<not> isSpace (last s)))"

definition cleanChar :: "nat \<Rightarrow> bool" where
  "cleanChar c = (\<not> isZeroWidth c \<and> \<not> isControl c \<and> \<not> isUnicodeSpace c \<and> \<not> isDashVariant c)"

definition unifyChars :: "jstring \<Rightarrow> jstring" where
  "unifyChars s = unifyDashes (unifySpaces (stripControl (stripZeroWidth s)))"

definition normChain :: "jstring \<Rightarrow> jstring" where
  "normChain s =
     trim (collapseSpaces (tightenSlashes (tightenPair 47 45 (tightenPair 45 47
       (tightenHyphens (unifyChars s))))))"

text \<open>The first white-space-delimited token of a text.\<close>

definition firstToken :: "jstring \<Rightarrow> jstring" where
  "firstToken s = takeWhile (\<lambda>c. \<not> isSpace c) (skipSpaces s)"

text \<open>The words of the key construction: a text that starts with white space; a token of
  one to ten capitals, digits or underscores; texts joined with a separator; the decimal
  numeral of a number; the values of the three structural fields that are not empty; and
  the token that is one more part of the key.\<close>

definition startsWithSpace :: "jstring \<Rightarrow> bool" where
  "startsWithSpace s = (case s of [] \<Rightarrow> False | c # cs \<Rightarrow> isSpace c)"

definition codeAlphabet :: jstring where
  "codeAlphabet = js ''ABCDEFGHIJKLMNOPQRSTUVWXYZ0123456789_''"

definition codePattern :: "jstring \<Rightarrow> bool" where
  "codePattern w = (w \<noteq> [] \<and> length w \<le> 10 \<and> set w \<subseteq> set codeAlphabet)"

fun separatedBy :: "jstring \<Rightarrow> jstring list \<Rightarrow> jstring" where
  "separatedBy sep [] = []"
| "separatedBy sep (p # ps) = p @ concat (map (\<lambda>q. sep @ q) ps)"

definition decimalValue :: "jstring \<Rightarrow> nat" where
  "decimalValue d = foldl (\<lambda>a c. 10 * a + (c - 48)) 0 d"

definition isDecimalOf :: "jstring \<Rightarrow> nat \<Rightarrow> bool" where
  "isDecimalOf d n =
     (d \<noteq> [] \<and> set d \<subseteq> set (js ''0123456789'') \<and> (d = js ''0'' \<or> hd d \<noteq> 48) \<and>
      decimalValue d = n)"

definition keyParts :: "(jstring \<Rightarrow> jstring) \<Rightarrow> row \<Rightarrow> jstring list" where
  "keyParts nrm r = filter (\<lambda>v. v \<noteq> []) [nrm (segmentGroup r), nrm (segmentCode r), nrm (dataElement r)]"

definition keyToken :: "(jstring \<Rightarrow> jstring) \<Rightarrow> row \<Rightarrow> jstring list" where
  "keyToken nrm r =
     (if nrm (dataElement r) \<noteq> [] \<and> \<not> startsWithSpace (nrm (beschreibung r)) \<and>
         codePattern (firstToken (nrm (beschreibung r)))
      then [firstToken (nrm (beschreibung r))] else [])"

text \<open>The parsed rows of a page, in the order in which the loop of \<open>buildSections\<close> sees
  them.\<close>

definition parsedRows :: "item list \<Rightarrow> parsedRow list" where
  "parsedRows items = map parseRow (groupIntoRows (contentItems items))"

section \<open>Example data\<close>

definition mkRow ::
  "nat \<Rightarrow> nat \<Rightarrow> string \<Rightarrow> string \<Rightarrow> string \<Rightarrow> string \<Rightarrow> string \<Rightarrow> string \<Rightarrow> string \<Rightarrow> bool \<Rightarrow> row" where
  "mkRow i n sg sc de b s1 s2 bd lbl =
     \<lparr>segmentGroup = js sg, segmentCode = js sc, dataElement = js de, beschreibung = js b,
      statusCol1 = js s1, statusCol2 = js s2, bedingung = js bd, isLabel = lbl,
      rowId = i, rowOrder = n\<rparr>"

definition mkSection :: "nat \<Rightarrow> nat \<Rightarrow> string \<Rightarrow> string \<Rightarrow> dbSection" where
  "mkSection i n t p =
     \<lparr>secId = i, sectionOrder = n, title = js t, pruefidentifikator = js p,
      kommunikationVon = js ''LF an NB'', statusCol1Header = js ''Statusmeldung'',
      statusCol2Header = [], pageStart = 1\<rparr>"

text \<open>An old document (id 1) whose only section has the codes 21025, 21026 and 21027, and
  a new one (id 2) whose only section has 21025 and 21027.\<close>

definition overlapDb :: database where
  "overlapDb =
     \<lparr>sectionsTable =
        [(1, mkSection 1 0 ''Alt'' ''21025,21026,21027''), (2, mkSection 2 0 ''Neu'' ''21025,21027'')],
      rowsTable =
        [(1, mkRow 1 0 ''SG2'' ''CTA'' ''3139'' ''IC'' ''Muss'' [] [] False),
         (2, mkRow 2 0 ''SG2'' ''CTA'' ''3139'' ''IC'' ''X'' [] [] False)]\<rparr>"

text \<open>A document (id 1) in which the section 21000 is opened, left for 21001 and opened
  again, and its copy (id 2).\<close>

definition dupDb :: database where
  "dupDb =
     \<lparr>sectionsTable =
        [(1, mkSection 1 0 ''A'' ''21000''), (1, mkSection 2 1 ''B'' ''21001''),
         (1, mkSection 3 2 ''A'' ''21000''),
         (2, mkSection 4 0 ''A'' ''21000''), (2, mkSection 5 1 ''B'' ''21001''),
         (2, mkSection 6 2 ''A'' ''21000'')],
      rowsTable =
        [(1, mkRow 1 0 ''SG2'' ''CTA'' ''3139'' ''IC'' ''Muss'' [] [] False),
         (3, mkRow 2 0 ''SG4'' ''DTM'' ''2005'' ''137'' ''X'' [] [] False),
         (4, mkRow 3 0 ''SG2'' ''CTA'' ''3139'' ''IC'' ''Muss'' [] [] False),
         (6, mkRow 4 0 ''SG4'' ''DTM'' ''2005'' ''137'' ''X'' [] [] False)]\<rparr>"

text \<open>Two old and three new rows with one compound key.\<close>

definition oldRows :: "row list" where
  "oldRows =
     [mkRow 1 0 ''SG2'' ''CTA'' ''3139'' ''IC'' ''Muss'' [] [] False,
      mkRow 2 1 ''SG2'' ''CTA'' ''3139'' ''IC'' ''Muss'' [] [] False]"

definition newRows :: "row list" where
  "newRows =
     [mkRow 11 0 ''SG2'' ''CTA'' ''3139'' ''IC'' ''Muss'' [] [] False,
      mkRow 12 1 ''SG2'' ''CTA'' ''3139'' ''IC'' ''X'' [] [] False,
      mkRow 13 2 ''SG2'' ''CTA'' ''3139'' ''IC'' ''Kann'' [] [] False]"

text \<open>Parsed rows: a section header, a row with a description only, a row with a status
  value only, and a data row whose description names the marker word as a field label.\<close>

definition mkCells :: "string \<Rightarrow> string \<Rightarrow> string \<Rightarrow> jstring \<Rightarrow> string \<Rightarrow> string \<Rightarrow> string \<Rightarrow> cells" where
  "mkCells sg sc de b s1 s2 bd =
     \<lparr>segmentGroup = js sg, segmentCode = js sc, dataElement = js de, beschreibung = b,
      statusCol1 = js s1, statusCol2 = js s2, bedingung = js bd\<rparr>"

definition headerRow :: cells where
  "headerRow = mkCells [] [] [] (js ''Pr'' @ [252] @ js ''fidentifikator'') ''21000'' [] []"

definition otherHeaderRow :: cells where
  "otherHeaderRow = mkCells [] [] [] (js ''Pr'' @ [252] @ js ''fidentifikator'') ''21001'' [] []"

definition labelOnlyRow :: cells where
  "labelOnlyRow = mkCells [] [] [] (js ''Sendungsdaten'') [] [] []"

definition statusOnlyRow :: cells where
  "statusOnlyRow = mkCells [] [] [] [] ''X'' [] []"

definition fieldLabelRow :: cells where
  "fieldLabelRow = mkCells ''SG4'' ''RFF'' ''1153'' (js ''Pr'' @ [252] @ js ''fidentifikator'') ''X'' ''Muss'' []"

definition afterHeader :: buildState where
  "afterHeader = processRow lowerLatin1 1 initialState headerRow"

text \<open>A label row, a row without structural identifiers and a row with a leading code
  value.\<close>

definition keyLabelRow :: row where
  "keyLabelRow = mkRow 1 0 [] [] [] ''Sendungsdaten'' [] [] [] True"

definition keyPosRow :: row where
  "keyPosRow = mkRow 2 7 [] [] [] ''Freitext'' ''X'' [] [] False"

definition keyCodeRow :: row where
  "keyCodeRow = mkRow 3 1 ''SG2'' ''CTA'' ''3139'' ''IC Informationskontakt'' ''Muss'' [] [] False"

text \<open>A row whose description starts with a code value followed by a spaced slash, and a
  label row whose description has a spaced hyphen.\<close>

definition tokenRow :: row where
  "tokenRow = mkRow 4 2 ''SG2'' ''CTA'' ''3139'' ''Z1 / Z2 Kontakt'' ''Muss'' [] [] False"

definition spacedLabelRow :: row where
  "spacedLabelRow = mkRow 5 3 [] [] [] ''EBD - Cluster'' [] [] [] True"

text \<open>Fragments: a text at a position. The fragments of a section header at a height, out
  of reading order; a page with a section header and the single row \<open>Sendungsdaten\<close>; a
  page on which the header of 21000 comes back after the header of 21001.\<close>

definition frag :: "jstring \<Rightarrow> rat \<Rightarrow> rat \<Rightarrow> item" where
  "frag t x y = \<lparr>i_text = t, i_x = x, i_y = y, i_width = 40, i_fontSize = 8\<rparr>"

definition headerFrags :: "string \<Rightarrow> rat \<Rightarrow> item list" where
  "headerFrags key y = [frag (js key) 310 y, frag (js ''Pr'' @ [252] @ js ''fidentifikator'') 175 (y + 1)]"

definition labelPage :: page where
  "labelPage =
     \<lparr>pg_pageNum = 1, pg_items = frag (js ''Sendungsdaten'') 175 680 # headerFrags ''21000'' 700\<rparr>"

definition recurringPage :: page where
  "recurringPage =
     \<lparr>pg_pageNum = 1,
      pg_items = headerFrags ''21000'' 700 @ headerFrags ''21001'' 600 @ headerFrags ''21000'' 500\<rparr>"

section \<open>The normalization: lemmas\<close>


lemma wsdel_refl: "wsdel s s"
  by (induction s) (auto intro: wsdel.intros)

lemma wsdel_trans: "wsdel s t \<Longrightarrow> wsdel t u \<Longrightarrow> wsdel s u"
proof (induction arbitrary: u rule: wsdel.induct)
  case nil
  then show ?case .
next
  case (keep s t c)
  from keep.prems keep.IH show ?case
    by (auto elim!: wsdel_ConsE intro: wsdel.keep wsdel.del)
next
  case (del c s t)
  then show ?case by (auto intro: wsdel.del)
qed

lemma wsdel_set: "wsdel s t \<Longrightarrow> set t \<subseteq> set s"
  by (induction rule: wsdel.induct) auto

lemma wsdel_Cons_cases:
  "wsdel (c # s) u \<Longrightarrow> (\<exists>u'. u = c # u' \<and> wsdel s u') \<or> (isSpace c \<and> wsdel s u)"
  by (auto elim: wsdel_ConsE)

lemma wsdel_nonspace:
  "\<not> isSpace c \<Longrightarrow> wsdel (c # s) u \<Longrightarrow> \<exists>u'. u = c # u' \<and> wsdel s u'"
  by (auto elim: wsdel_ConsE)

lemma wsdel_skip:
  "wsdel s t \<Longrightarrow>
   (skipSpaces s = [] \<and> skipSpaces t = []) \<or>
   (\<exists>c s' t'. skipSpaces s = c # s' \<and> skipSpaces t = c # t' \<and> wsdel s' t')"
  by (induction rule: wsdel.induct) (auto simp: skipSpaces_def)

lemma wsdel_skipSpaces: "wsdel s (skipSpaces s)"
  by (induction s) (auto simp: skipSpaces_def intro: wsdel.intros wsdel_refl)

lemma dropWhile_not_longer: "dropWhile P s \<noteq> c # s"
proof
  assume "dropWhile P s = c # s"
  then have "length (c # s) \<le> length s" using length_dropWhile_le [of P s] by simp
  then show False by simp
qed

lemma wsdel_noLead: "wsdel s t \<Longrightarrow> skipSpaces s = s \<Longrightarrow> skipSpaces t = t"
proof (induction rule: wsdel.induct)
  case nil
  then show ?case by simp
next
  case (keep s t c)
  then show ?case by (auto simp: skipSpaces_def dropWhile_not_longer split: if_splits)
next
  case (del c s t)
  then show ?case by (auto simp: skipSpaces_def dropWhile_not_longer)
qed

lemma skipSpaces_idem [simp]: "skipSpaces (skipSpaces s) = skipSpaces s"
  by (simp add: skipSpaces_def)

lemma matchHyphen_wsdel:
  "wsdel s t \<Longrightarrow>
   (matchHyphen s = None \<and> matchHyphen t = None) \<or>
   (\<exists>e r r'. matchHyphen s = Some (e, r) \<and> matchHyphen t = Some (e, r') \<and> wsdel r r')"
proof -
  assume "wsdel s t"
  from wsdel_skip [OF this] show ?thesis
  proof
    assume "skipSpaces s = [] \<and> skipSpaces t = []"
    then show ?thesis by (simp add: matchHyphen_def)
  next
    assume "\<exists>c s' t'. skipSpaces s = c # s' \<and> skipSpaces t = c # t' \<and> wsdel s' t'"
    then obtain c s' t' where a: "skipSpaces s = c # s'" "skipSpaces t = c # t'" "wsdel s' t'"
      by blast
    from wsdel_skip [OF a(3)] a(1,2) show ?thesis
      by (auto simp: matchHyphen_def)
  qed
qed

lemma matchHyphen_Some_wsdel: "matchHyphen s = Some (e, r) \<Longrightarrow> wsdel s (45 # e # r)"
proof -
  assume "matchHyphen s = Some (e, r)"
  then obtain r1 where a: "skipSpaces s = 45 # r1" and b: "skipSpaces r1 = e # r"
    by (auto simp: matchHyphen_def split: list.splits if_splits)
  have "wsdel s (45 # r1)" using wsdel_skipSpaces [of s] a by simp
  moreover have "wsdel r1 (e # r)" using wsdel_skipSpaces [of r1] b by simp
  ultimately show ?thesis by (blast intro: wsdel_trans wsdel.keep)
qed

lemma matchHyphen_tight: "isWordChar e \<Longrightarrow> matchHyphen (45 # e # r) = Some (e, r)"
  by (auto simp: matchHyphen_def skipSpaces_def isSpace_def isWordChar_def)

lemma word_not_space: "isWordChar c \<Longrightarrow> \<not> isSpace c"
  by (auto simp: isWordChar_def isSpace_def)

lemma matchHyphen_word: "matchHyphen s = Some (e, r) \<Longrightarrow> isWordChar e"
  by (auto simp: matchHyphen_def split: list.splits if_splits)

lemma tightenHyphens_wsdel: "wsdel s (tightenHyphens s)"
proof (induction s rule: tightenHyphens.induct)
  case 1
  then show ?case by (simp add: wsdel.nil)
next
  case (2 c cs)
  show ?case
  proof (cases "isWordChar c")
    case False
    with 2 show ?thesis by (simp add: wsdel.keep)
  next
    case True
    show ?thesis
    proof (cases "matchHyphen cs")
      case None
      with True 2 show ?thesis by (simp add: wsdel.keep)
    next
      case (Some p)
      obtain e r where p: "p = (e, r)" by (cases p)
      with Some have m: "matchHyphen cs = Some (e, r)" by simp
      from "2.IH"(2) [OF True m] p have "wsdel r (tightenHyphens r)" by simp
      then have "wsdel (45 # e # r) (45 # e # tightenHyphens r)" by (intro wsdel.keep)
      with matchHyphen_Some_wsdel [OF m] have "wsdel cs (45 # e # tightenHyphens r)"
        by (rule wsdel_trans)
      then show ?thesis using True m by (simp add: wsdel.keep)
    qed
  qed
qed

lemma tightenHyphens_fixed: "wsdel (tightenHyphens s) u \<Longrightarrow> tightenHyphens u = u"
proof (induction s arbitrary: u rule: tightenHyphens.induct)
  case 1
  then show ?case by (auto elim: wsdel_NilE)
next
  case (2 c cs)
  show ?case
  proof (cases "isWordChar c")
    case False
    with "2.prems" have w: "wsdel (c # tightenHyphens cs) u" by simp
    from wsdel_Cons_cases [OF w] "2.IH"(3) [OF False] False show ?thesis by auto
  next
    case True
    then have ns: "\<not> isSpace c" by (rule word_not_space)
    show ?thesis
    proof (cases "matchHyphen cs")
      case None
      with True "2.prems" have "wsdel (c # tightenHyphens cs) u" by simp
      from wsdel_nonspace [OF ns this] obtain u' where u: "u = c # u'"
        and w: "wsdel (tightenHyphens cs) u'" by blast
      have "wsdel cs u'" using tightenHyphens_wsdel w by (rule wsdel_trans)
      from matchHyphen_wsdel [OF this] None have "matchHyphen u' = None" by auto
      moreover from "2.IH"(1) [OF True None w] have "tightenHyphens u' = u'" .
      ultimately show ?thesis using True u by simp
    next
      case (Some p)
      obtain e r where p: "p = (e, r)" by (cases p)
      with Some have m: "matchHyphen cs = Some (e, r)" by simp
      then have e: "isWordChar e" by (rule matchHyphen_word)
      from True m "2.prems" have "wsdel (c # 45 # e # tightenHyphens r) u" by simp
      from wsdel_nonspace [OF ns this] obtain u1 where u1: "u = c # u1"
        and w1: "wsdel (45 # e # tightenHyphens r) u1" by blast
      have "\<not> isSpace 45" by (simp add: isSpace_def)
      from wsdel_nonspace [OF this w1] obtain u2 where u2: "u1 = 45 # u2"
        and w2: "wsdel (e # tightenHyphens r) u2" by blast
      from wsdel_nonspace [OF word_not_space [OF e] w2] obtain u3 where u3: "u2 = e # u3"
        and w3: "wsdel (tightenHyphens r) u3" by blast
      from "2.IH"(2) [OF True m, of e r u3] p w3 have "tightenHyphens u3 = u3" by simp
      then show ?thesis using True u1 u2 u3 matchHyphen_tight [OF e, of u3] by simp
    qed
  qed
qed

lemma wsdel_skip_both: "wsdel s t \<Longrightarrow> wsdel (skipSpaces s) (skipSpaces t)"
  using wsdel_skip [of s t] by (auto intro: wsdel.intros)

lemma matchPair_wsdel:
  "wsdel s t \<Longrightarrow>
   (matchPair a b s = None \<and> matchPair a b t = None) \<or>
   (\<exists>r r'. matchPair a b s = Some r \<and> matchPair a b t = Some r' \<and> wsdel r r')"
proof -
  assume "wsdel s t"
  from wsdel_skip [OF this] show ?thesis
  proof
    assume "skipSpaces s = [] \<and> skipSpaces t = []"
    then show ?thesis by (simp add: matchPair_def)
  next
    assume "\<exists>c s' t'. skipSpaces s = c # s' \<and> skipSpaces t = c # t' \<and> wsdel s' t'"
    then obtain c s' t' where a: "skipSpaces s = c # s'" "skipSpaces t = c # t'" "wsdel s' t'"
      by blast
    from wsdel_skip [OF a(3)] show ?thesis
    proof
      assume "skipSpaces s' = [] \<and> skipSpaces t' = []"
      with a show ?thesis by (simp add: matchPair_def)
    next
      assume "\<exists>c s'' t''. skipSpaces s' = c # s'' \<and> skipSpaces t' = c # t'' \<and> wsdel s'' t''"
      then obtain e s'' t'' where b: "skipSpaces s' = e # s''" "skipSpaces t' = e # t''" "wsdel s'' t''"
        by blast
      from wsdel_skip_both [OF b(3)] a b show ?thesis by (simp add: matchPair_def)
    qed
  qed
qed

lemma matchPair_Some_wsdel: "matchPair a b s = Some r \<Longrightarrow> wsdel s (a # b # r)"
proof -
  assume "matchPair a b s = Some r"
  then obtain r1 r2 where x: "skipSpaces s = a # r1" and y: "skipSpaces r1 = b # r2"
    and z: "r = skipSpaces r2"
    by (auto simp: matchPair_def split: list.splits if_splits)
  have "wsdel s (a # r1)" using wsdel_skipSpaces [of s] x by simp
  moreover have "wsdel r1 (b # r2)" using wsdel_skipSpaces [of r1] y by simp
  moreover have "wsdel r2 r" using wsdel_skipSpaces [of r2] z by simp
  ultimately show ?thesis by (blast intro: wsdel_trans wsdel.keep)
qed

lemma matchPair_noLead: "matchPair a b s = Some r \<Longrightarrow> skipSpaces r = r"
  by (auto simp: matchPair_def split: list.splits if_splits)

lemma matchPair_tight:
  "\<not> isSpace a \<Longrightarrow> \<not> isSpace b \<Longrightarrow> matchPair a b (a # b # u) = Some (skipSpaces u)"
  by (simp add: matchPair_def skipSpaces_def)

lemma tightenPair_wsdel: "wsdel s (tightenPair a b s)"
proof (induction a b s rule: tightenPair.induct)
  case (1 a b)
  then show ?case by (simp add: wsdel.nil)
next
  case (2 a b c cs)
  show ?case
  proof (cases "matchPair a b (c # cs)")
    case None
    with 2 show ?thesis by (simp add: wsdel.keep)
  next
    case (Some r)
    with 2 have "wsdel r (tightenPair a b r)" by simp
    then have "wsdel (a # b # r) (a # b # tightenPair a b r)" by (intro wsdel.keep)
    with matchPair_Some_wsdel [OF Some] have "wsdel (c # cs) (a # b # tightenPair a b r)"
      by (rule wsdel_trans)
    with Some show ?thesis by simp
  qed
qed

lemma tightenPair_fixed:
  "\<not> isSpace a \<Longrightarrow> \<not> isSpace b \<Longrightarrow> wsdel (tightenPair a b s) u \<Longrightarrow> tightenPair a b u = u"
proof (induction a b s arbitrary: u rule: tightenPair.induct)
  case (1 a b)
  then show ?case by (auto elim: wsdel_NilE)
next
  case (2 a b c cs)
  note na = "2.prems"(1) and nb = "2.prems"(2)
  show ?case
  proof (cases "matchPair a b (c # cs)")
    case None
    with "2.prems" have w: "wsdel (c # tightenPair a b cs) u" by simp
    have ih: "\<And>v. wsdel (tightenPair a b cs) v \<Longrightarrow> tightenPair a b v = v"
      using "2.IH"(1) [OF None na nb] .
    from wsdel_Cons_cases [OF w] show ?thesis
    proof
      assume "\<exists>u'. u = c # u' \<and> wsdel (tightenPair a b cs) u'"
      then obtain u' where u: "u = c # u'" and w': "wsdel (tightenPair a b cs) u'" by blast
      have "wsdel cs u'" using tightenPair_wsdel w' by (rule wsdel_trans)
      then have "wsdel (c # cs) (c # u')" by (rule wsdel.keep)
      from matchPair_wsdel [OF this, of a b] None have "matchPair a b (c # u') = None" by auto
      with ih [OF w'] u show ?thesis by simp
    next
      assume "isSpace c \<and> wsdel (tightenPair a b cs) u"
      with ih show ?thesis by blast
    qed
  next
    case (Some r)
    with "2.prems" have w: "wsdel (a # b # tightenPair a b r) u" by simp
    have ih: "\<And>v. wsdel (tightenPair a b r) v \<Longrightarrow> tightenPair a b v = v"
      using "2.IH"(2) [OF Some na nb] .
    from wsdel_nonspace [OF na w] obtain u1 where u1: "u = a # u1"
      and w1: "wsdel (b # tightenPair a b r) u1" by blast
    from wsdel_nonspace [OF nb w1] obtain u2 where u2: "u1 = b # u2"
      and w2: "wsdel (tightenPair a b r) u2" by blast
    have "wsdel r u2" using tightenPair_wsdel w2 by (rule wsdel_trans)
    from wsdel_noLead [OF this matchPair_noLead [OF Some]] have nl: "skipSpaces u2 = u2" .
    from ih [OF w2] matchPair_tight [OF na nb, of u2] nl u1 u2 show ?thesis by simp
  qed
qed

lemma matchSlash_wsdel:
  "wsdel s t \<Longrightarrow>
   (matchSlash s = None \<and> matchSlash t = None) \<or>
   (\<exists>r r'. matchSlash s = Some r \<and> matchSlash t = Some r' \<and> wsdel r r')"
proof -
  assume "wsdel s t"
  from wsdel_skip [OF this] show ?thesis
  proof
    assume "skipSpaces s = [] \<and> skipSpaces t = []"
    then show ?thesis by (simp add: matchSlash_def)
  next
    assume "\<exists>c s' t'. skipSpaces s = c # s' \<and> skipSpaces t = c # t' \<and> wsdel s' t'"
    then obtain c s' t' where a: "skipSpaces s = c # s'" "skipSpaces t = c # t'" "wsdel s' t'"
      by blast
    from wsdel_skip_both [OF a(3)] a show ?thesis by (simp add: matchSlash_def)
  qed
qed

lemma matchSlash_Some_wsdel: "matchSlash s = Some r \<Longrightarrow> wsdel s (47 # r)"
proof -
  assume "matchSlash s = Some r"
  then obtain r1 where x: "skipSpaces s = 47 # r1" and z: "r = skipSpaces r1"
    by (auto simp: matchSlash_def split: list.splits if_splits)
  have "wsdel s (47 # r1)" using wsdel_skipSpaces [of s] x by simp
  moreover have "wsdel r1 r" using wsdel_skipSpaces [of r1] z by simp
  ultimately show ?thesis by (blast intro: wsdel_trans wsdel.keep)
qed

lemma matchSlash_noLead: "matchSlash s = Some r \<Longrightarrow> skipSpaces r = r"
  by (auto simp: matchSlash_def split: list.splits if_splits)

lemma matchSlash_tight: "matchSlash (47 # u) = Some (skipSpaces u)"
  by (simp add: matchSlash_def skipSpaces_def isSpace_def)

lemma tightenSlashes_wsdel: "wsdel s (tightenSlashes s)"
proof (induction s rule: tightenSlashes.induct)
  case 1
  then show ?case by (simp add: wsdel.nil)
next
  case (2 c cs)
  show ?case
  proof (cases "matchSlash (c # cs)")
    case None
    with 2 show ?thesis by (simp add: wsdel.keep)
  next
    case (Some r)
    with 2 have "wsdel r (tightenSlashes r)" by simp
    then have "wsdel (47 # r) (47 # tightenSlashes r)" by (intro wsdel.keep)
    with matchSlash_Some_wsdel [OF Some] have "wsdel (c # cs) (47 # tightenSlashes r)"
      by (rule wsdel_trans)
    with Some show ?thesis by simp
  qed
qed

lemma tightenSlashes_fixed: "wsdel (tightenSlashes s) u \<Longrightarrow> tightenSlashes u = u"
proof (induction s arbitrary: u rule: tightenSlashes.induct)
  case 1
  then show ?case by (auto elim: wsdel_NilE)
next
  case (2 c cs)
  show ?case
  proof (cases "matchSlash (c # cs)")
    case None
    with "2.prems" have w: "wsdel (c # tightenSlashes cs) u" by simp
    have ih: "\<And>v. wsdel (tightenSlashes cs) v \<Longrightarrow> tightenSlashes v = v"
      using "2.IH"(1) [OF None] .
    from wsdel_Cons_cases [OF w] show ?thesis
    proof
      assume "\<exists>u'. u = c # u' \<and> wsdel (tightenSlashes cs) u'"
      then obtain u' where u: "u = c # u'" and w': "wsdel (tightenSlashes cs) u'" by blast
      have "wsdel cs u'" using tightenSlashes_wsdel w' by (rule wsdel_trans)
      then have "wsdel (c # cs) (c # u')" by (rule wsdel.keep)
      from matchSlash_wsdel [OF this] None have "matchSlash (c # u') = None" by auto
      with ih [OF w'] u show ?thesis by simp
    next
      assume "isSpace c \<and> wsdel (tightenSlashes cs) u"
      with ih show ?thesis by blast
    qed
  next
    case (Some r)
    with "2.prems" have w: "wsdel (47 # tightenSlashes r) u" by simp
    have ih: "\<And>v. wsdel (tightenSlashes r) v \<Longrightarrow> tightenSlashes v = v"
      using "2.IH"(2) [OF Some] .
    have "\<not> isSpace 47" by (simp add: isSpace_def)
    from wsdel_nonspace [OF this w] obtain u1 where u1: "u = 47 # u1"
      and w1: "wsdel (tightenSlashes r) u1" by blast
    have "wsdel r u1" using tightenSlashes_wsdel w1 by (rule wsdel_trans)
    from wsdel_noLead [OF this matchSlash_noLead [OF Some]] have nl: "skipSpaces u1 = u1" .
    from ih [OF w1] matchSlash_tight [of u1] nl u1 show ?thesis by simp
  qed
qed

lemma collapseSpaces_head: "\<exists>xs. collapseSpaces (c # cs) = c # xs"
  by (cases cs) auto

lemma wsdel_drop32: "wsdel s (dropWhile (\<lambda>x. x = 32) s)"
  by (induction s) (auto simp: isSpace_def intro: wsdel.intros wsdel_refl)

lemma collapseSpaces_wsdel: "wsdel s (collapseSpaces s)"
proof (induction s rule: collapseSpaces.induct)
  case 1
  then show ?case by (simp add: wsdel.nil)
next
  case (2 c)
  then show ?case by (simp add: wsdel_refl)
next
  case (3 c d cs)
  show ?case
  proof (cases "c = 32 \<and> d = 32")
    case True
    with 3 have "wsdel (dropWhile (\<lambda>x. x = 32) cs) (collapseSpaces (dropWhile (\<lambda>x. x = 32) cs))"
      by simp
    with wsdel_drop32 have "wsdel cs (collapseSpaces (dropWhile (\<lambda>x. x = 32) cs))"
      by (rule wsdel_trans)
    moreover have "isSpace 32" by (simp add: isSpace_def)
    ultimately have "wsdel (32 # 32 # cs) (32 # collapseSpaces (dropWhile (\<lambda>x. x = 32) cs))"
      by (intro wsdel.keep wsdel.del)
    with True show ?thesis by simp
  next
    case False
    with 3 have "wsdel (d # cs) (collapseSpaces (d # cs))" by simp
    then have "wsdel (c # d # cs) (c # collapseSpaces (d # cs))" by (rule wsdel.keep)
    with False show ?thesis by auto
  qed
qed

lemma noDouble_collapseSpaces: "noDouble (collapseSpaces s)"
proof (induction s rule: collapseSpaces.induct)
  case 1
  then show ?case by simp
next
  case (2 c)
  then show ?case by simp
next
  case (3 c d cs)
  show ?case
  proof (cases "c = 32 \<and> d = 32")
    case True
    let ?r = "dropWhile (\<lambda>x. x = 32) cs"
    from 3 True have ih: "noDouble (collapseSpaces ?r)" by simp
    from True have e: "collapseSpaces (c # d # cs) = 32 # collapseSpaces ?r" by simp
    show ?thesis
    proof (cases ?r)
      case Nil
      then have "collapseSpaces ?r = []" by (simp only: collapseSpaces.simps)
      then show ?thesis by (simp only: e noDouble.simps)
    next
      case (Cons x xs)
      then have "?r \<noteq> []" by simp
      then have "\<not> hd ?r = 32" by (rule hd_dropWhile)
      with Cons have x: "x \<noteq> 32" by simp
      from collapseSpaces_head [of x xs] obtain ys where ys: "collapseSpaces (x # xs) = x # ys"
        by blast
      from ih have "noDouble (x # ys)" by (simp only: Cons ys)
      with x have "noDouble (32 # x # ys)" by simp
      then show ?thesis by (simp only: e Cons ys)
    qed
  next
    case False
    with 3 have ih: "noDouble (collapseSpaces (d # cs))" by simp
    from collapseSpaces_head [of d cs] obtain ys where "collapseSpaces (d # cs) = d # ys" by blast
    with ih False show ?thesis by auto
  qed
qed

lemma collapseSpaces_noDouble: "noDouble s \<Longrightarrow> collapseSpaces s = s"
  by (induction s rule: noDouble.induct) auto

lemma noDouble_tl: "noDouble (c # cs) \<Longrightarrow> noDouble cs"
  by (cases cs) auto

lemma noDouble_dropWhile: "noDouble s \<Longrightarrow> noDouble (dropWhile P s)"
  by (induction s) (auto dest: noDouble_tl)

lemma noDouble_take: "noDouble s \<Longrightarrow> noDouble (take n s)"
proof (induction s arbitrary: n rule: noDouble.induct)
  case 1
  then show ?case by simp
next
  case (2 c)
  then show ?case by (cases n) auto
next
  case (3 c d cs)
  show ?case
  proof (cases n)
    case 0
    then show ?thesis by simp
  next
    case (Suc m)
    show ?thesis
    proof (cases m)
      case 0
      with Suc show ?thesis by simp
    next
      case (Suc k)
      from "3.prems" have nd: "\<not> (c = 32 \<and> d = 32)" and tl: "noDouble (d # cs)" by simp_all
      from "3.IH" [OF tl, of "Suc k"] have "noDouble (d # take k cs)" by simp
      with nd have "noDouble (c # d # take k cs)" by simp
      then show ?thesis by (simp add: \<open>n = Suc m\<close> Suc)
    qed
  qed
qed

lemma rev_dropWhile_rev: "rev (dropWhile P (rev xs)) = take (length (dropWhile P (rev xs))) xs"
proof -
  have "rev xs = takeWhile P (rev xs) @ dropWhile P (rev xs)" by simp
  then have "xs = rev (dropWhile P (rev xs)) @ rev (takeWhile P (rev xs))"
    by (metis rev_append rev_rev_ident)
  then have "take (length (rev (dropWhile P (rev xs)))) xs = rev (dropWhile P (rev xs))"
    by (metis append_eq_conv_conj)
  then show ?thesis by simp
qed

lemma noDouble_trim: "noDouble s \<Longrightarrow> noDouble (trim s)"
  unfolding trim_def skipSpaces_def
  by (subst rev_dropWhile_rev) (intro noDouble_take noDouble_dropWhile)

lemma wsdel_append_spaces: "list_all isSpace ys \<Longrightarrow> wsdel (xs @ ys) xs"
proof (induction xs)
  case Nil
  then show ?case by (induction ys) (auto intro: wsdel.intros)
next
  case (Cons x xs)
  then show ?case by (auto intro: wsdel.keep)
qed

lemma trim_wsdel: "wsdel s (trim s)"
proof -
  let ?t = "skipSpaces s"
  have "rev ?t = takeWhile isSpace (rev ?t) @ dropWhile isSpace (rev ?t)" by simp
  then have t: "?t = trim s @ rev (takeWhile isSpace (rev ?t))"
    unfolding trim_def skipSpaces_def by (metis rev_append rev_rev_ident)
  have "list_all isSpace (rev (takeWhile isSpace (rev ?t)))"
    by (auto simp: list_all_iff dest: set_takeWhileD)
  then have "wsdel (trim s @ rev (takeWhile isSpace (rev ?t))) (trim s)"
    by (rule wsdel_append_spaces)
  with t have "wsdel ?t (trim s)" by simp
  with wsdel_skipSpaces show ?thesis by (rule wsdel_trans)
qed

lemma last_dropWhile: "dropWhile P xs \<noteq> [] \<Longrightarrow> last (dropWhile P xs) = last xs"
  by (induction xs) (auto split: if_splits)

lemma trimmed_trim: "trimmed (trim s)"
proof (cases "trim s = []")
  case True
  then show ?thesis by (simp add: trimmed_def)
next
  case False
  let ?t = "dropWhile isSpace s"
  let ?u = "dropWhile isSpace (rev ?t)"
  from False have u: "?u \<noteq> []" by (simp add: trim_def skipSpaces_def)
  then have t: "?t \<noteq> []" by (cases ?t) simp_all
  have "\<not> isSpace (hd ?u)" using u by (rule hd_dropWhile)
  then have l: "\<not> isSpace (last (trim s))"
    using u by (simp add: trim_def skipSpaces_def last_rev)
  have "last ?u = last (rev ?t)" using u by (rule last_dropWhile)
  also have "\<dots> = hd ?t" using t by (simp add: last_rev)
  finally have "hd (trim s) = hd ?t" using u by (simp add: trim_def skipSpaces_def hd_rev)
  moreover have "\<not> isSpace (hd ?t)" using t by (rule hd_dropWhile)
  ultimately show ?thesis using l by (simp add: trimmed_def)
qed

lemma trim_trimmed: "trimmed s \<Longrightarrow> trim s = s"
proof (cases "s = []")
  case True
  then show ?thesis by (simp add: trim_def skipSpaces_def)
next
  case False
  assume "trimmed s"
  with False have h: "\<not> isSpace (hd s)" and l: "\<not> isSpace (last s)" by (auto simp: trimmed_def)
  from False h have a: "dropWhile isSpace s = s" by (cases s) auto
  from False l have "\<not> isSpace (hd (rev s))" by (simp add: hd_rev)
  with False have b: "dropWhile isSpace (rev s) = rev s" by (cases "rev s") auto
  show ?thesis by (simp add: trim_def skipSpaces_def a b)
qed

lemma trimmed_noLead: "trimmed s \<Longrightarrow> skipSpaces s = s"
  by (cases s) (auto simp: trimmed_def skipSpaces_def)

lemma cleanChar_unify: "c \<in> set (unifyChars s) \<Longrightarrow> cleanChar c"
proof -
  assume "c \<in> set (unifyChars s)"
  then obtain c0 where z: "\<not> isZeroWidth c0" and k: "\<not> isControl c0"
    and c: "c = (if isDashVariant (if isUnicodeSpace c0 then 32 else c0) then 45
                 else (if isUnicodeSpace c0 then 32 else c0))"
    by (auto simp: unifyChars_def unifyDashes_def unifySpaces_def stripControl_def stripZeroWidth_def)
  have c32: "cleanChar 32" and c45: "cleanChar 45"
    by (simp_all add: cleanChar_def isZeroWidth_def isControl_def isUnicodeSpace_def isDashVariant_def)
  have d32: "\<not> isDashVariant 32" by (simp add: isDashVariant_def)
  show ?thesis
  proof (cases "isUnicodeSpace c0")
    case True
    with c d32 c32 show ?thesis by simp
  next
    case False
    show ?thesis
    proof (cases "isDashVariant c0")
      case True
      with c False c45 show ?thesis by simp
    next
      case d: False
      with c False z k show ?thesis by (simp add: cleanChar_def)
    qed
  qed
qed

lemma unifyChars_clean: "(\<And>c. c \<in> set s \<Longrightarrow> cleanChar c) \<Longrightarrow> unifyChars s = s"
proof -
  assume a: "\<And>c. c \<in> set s \<Longrightarrow> cleanChar c"
  have 1: "stripZeroWidth s = s"
    unfolding stripZeroWidth_def using a by (auto simp: cleanChar_def intro: filter_True)
  have 2: "stripControl s = s"
    unfolding stripControl_def using a by (auto simp: cleanChar_def intro: filter_True)
  have 3: "unifySpaces s = s"
    unfolding unifySpaces_def using a by (auto simp: cleanChar_def intro: map_idI)
  have 4: "unifyDashes s = s"
    unfolding unifyDashes_def using a by (auto simp: cleanChar_def intro: map_idI)
  show ?thesis by (simp add: unifyChars_def 1 2 3 4)
qed

lemma normChain_Nil: "normChain [] = []"
  by (simp add: normChain_def unifyChars_def stripZeroWidth_def stripControl_def unifySpaces_def
      unifyDashes_def trim_def skipSpaces_def)

lemma normalize_chain: "normalizeForComparison s = normChain s"
proof (cases "s = []")
  case True
  then show ?thesis by (simp add: normalizeForComparison_def normChain_Nil)
next
  case False
  then show ?thesis by (simp add: normalizeForComparison_def normChain_def unifyChars_def Let_def)
qed

lemma normChain_fixed: "normChain (normChain s) = normChain s"
proof -
  let ?x0 = "unifyChars s"
  let ?x5 = "tightenHyphens ?x0"
  let ?x6 = "tightenPair 45 47 ?x5"
  let ?x7 = "tightenPair 47 45 ?x6"
  let ?x8 = "tightenSlashes ?x7"
  let ?x9 = "collapseSpaces ?x8"
  let ?t = "trim ?x9"
  have t: "normChain s = ?t" by (simp add: normChain_def)
  have w9: "wsdel ?x9 ?t" by (rule trim_wsdel)
  have w8: "wsdel ?x8 ?t" using collapseSpaces_wsdel w9 by (rule wsdel_trans)
  have w7: "wsdel ?x7 ?t" using tightenSlashes_wsdel w8 by (rule wsdel_trans)
  have w6: "wsdel ?x6 ?t" using tightenPair_wsdel w7 by (rule wsdel_trans)
  have w5: "wsdel ?x5 ?t" using tightenPair_wsdel w6 by (rule wsdel_trans)
  have w0: "wsdel ?x0 ?t" using tightenHyphens_wsdel w5 by (rule wsdel_trans)
  have n45: "\<not> isSpace 45" and n47: "\<not> isSpace 47" by (simp_all add: isSpace_def)
  have f0: "unifyChars ?t = ?t"
    using wsdel_set [OF w0] by (intro unifyChars_clean) (auto dest: cleanChar_unify)
  have f5: "tightenHyphens ?t = ?t" using w5 by (rule tightenHyphens_fixed)
  have f6: "tightenPair 45 47 ?t = ?t" using n45 n47 w6 by (rule tightenPair_fixed)
  have f7: "tightenPair 47 45 ?t = ?t" using n47 n45 w7 by (rule tightenPair_fixed)
  have f8: "tightenSlashes ?t = ?t" using w8 by (rule tightenSlashes_fixed)
  have f9: "collapseSpaces ?t = ?t"
    by (intro collapseSpaces_noDouble noDouble_trim noDouble_collapseSpaces)
  have ft: "trim ?t = ?t" by (intro trim_trimmed trimmed_trim)
  have "normChain ?t = ?t"
    unfolding normChain_def [of ?t] by (simp only: f0 f5 f6 f7 f8 f9 ft)
  then show ?thesis by (simp only: t)
qed

lemma normalize_noLead: "skipSpaces (normalizeForComparison s) = normalizeForComparison s"
  unfolding normalize_chain normChain_def by (intro trimmed_noLead trimmed_trim)

subsection \<open>The words of the key construction\<close>

lemma join_separatedBy: "join sep ps = separatedBy sep ps"
  by (induction sep ps rule: join.induct) simp_all

lemma codeAlphabet_ranges: "codeAlphabet = [65..<91] @ [48..<58] @ [95]"
  by code_simp

lemma set_codeAlphabet_eq: "set codeAlphabet = {65..<91} \<union> ({48..<58} \<union> {95})"
  unfolding codeAlphabet_ranges by (simp only: set_append set_upt list.set)

lemma set_codeAlphabet: "c \<in> set codeAlphabet \<longleftrightarrow> isCodeChar c"
  unfolding set_codeAlphabet_eq by (auto simp: isCodeChar_def)

lemma looksLikeCode_iff: "looksLikeCode w \<longleftrightarrow> codePattern w"
  by (cases w) (auto simp: looksLikeCode_def codePattern_def list_all_iff set_codeAlphabet)

lemma digits_ranges: "js ''0123456789'' = [48..<58]"
  by code_simp

lemma set_digits: "set (js ''0123456789'') = {48..<58}"
  unfolding digits_ranges by (simp only: set_upt)

lemma decimalValue_snoc: "decimalValue (d @ [c]) = 10 * decimalValue d + (c - 48)"
  by (simp add: decimalValue_def)

lemma showNat_props:
  "showNat n \<noteq> [] \<and> set (showNat n) \<subseteq> {48..<58} \<and> decimalValue (showNat n) = n \<and>
   (hd (showNat n) = 48 \<longrightarrow> n = 0)"
proof (induction n rule: showNat.induct)
  case (1 n)
  show ?case
  proof (cases "n < 10")
    case True
    then show ?thesis by (simp add: showNat.simps [of n] decimalValue_def)
  next
    case False
    with 1 have ih: "showNat (n div 10) \<noteq> []" "set (showNat (n div 10)) \<subseteq> {48..<58}"
      "decimalValue (showNat (n div 10)) = n div 10"
      "hd (showNat (n div 10)) = 48 \<longrightarrow> n div 10 = 0"
      by simp_all
    from False have s: "showNat n = showNat (n div 10) @ [48 + n mod 10]"
      by (simp add: showNat.simps [of n])
    from False have nz: "n div 10 \<noteq> 0" by simp
    show ?thesis
      using ih nz by (simp add: s decimalValue_snoc)
  qed
qed

lemma showNat_decimal: "isDecimalOf (showNat n) n"
proof -
  have "n = 0 \<Longrightarrow> showNat n = js ''0''"
    by (simp add: showNat.simps [of 0] js_def)
  with showNat_props [of n] show ?thesis
    unfolding isDecimalOf_def set_digits by blast
qed

lemma firstSplit_firstToken: "\<not> startsWithSpace s \<Longrightarrow> firstSplit s = firstToken s"
  by (cases s) (simp_all add: startsWithSpace_def firstSplit_def firstToken_def skipSpaces_def)

lemma firstSplit_space: "startsWithSpace s \<Longrightarrow> firstSplit s = []"
  by (cases s) (simp_all add: startsWithSpace_def firstSplit_def)

lemma normalize_noSpace: "\<not> startsWithSpace (normalizeForComparison s)"
proof
  assume a: "startsWithSpace (normalizeForComparison s)"
  then obtain c cs where n: "normalizeForComparison s = c # cs" and c: "isSpace c"
    by (cases "normalizeForComparison s") (simp_all add: startsWithSpace_def)
  have "skipSpaces (normalizeForComparison s) = normalizeForComparison s"
    by (rule normalize_noLead)
  with n c have "skipSpaces cs = c # cs" by (simp add: skipSpaces_def)
  then have "length (c # cs) \<le> length cs"
    by (metis skipSpaces_def length_dropWhile_le)
  then show False by simp
qed

lemma rowKey_spec:
  "rowKey nrm r =
     (if isLabel r then js ''LABEL:'' @ nrm (beschreibung r)
      else if keyParts nrm r = [] then js ''POS:'' @ showNat (rowOrder r)
      else separatedBy (js ''|'') (keyParts nrm r @ keyToken nrm r))"
proof (cases "startsWithSpace (nrm (beschreibung r))")
  case True
  then have "\<not> looksLikeCode (firstSplit (nrm (beschreibung r)))"
    by (simp add: firstSplit_space looksLikeCode_def)
  with True show ?thesis
    by (simp add: rowKey_def Let_def keyParts_def keyToken_def join_separatedBy)
next
  case False
  then show ?thesis
    by (simp add: rowKey_def Let_def keyParts_def keyToken_def join_separatedBy
        firstSplit_firstToken looksLikeCode_iff)
qed

section \<open>The normalization: claims\<close>

text \<open>
  Claim C4. Text normalization is idempotent: normalizing a normalized text gives the
  same text, for every text.
\<close>

theorem normalize_idempotent:
  "normalizeForComparison (normalizeForComparison s) = normalizeForComparison s"
  by (simp only: normalize_chain normChain_fixed)

theorem normalize_idempotent_witness:
  "normalizeForComparison (js ''EBD - Cluster  a -/ b'') = js ''EBD-Cluster a-/b'' \<and>
   normalizeForComparison (normalizeForComparison (js ''EBD - Cluster  a -/ b'')) =
     js ''EBD-Cluster a-/b''"
proof -
  have "normalizeForComparison (js ''EBD - Cluster  a -/ b'') = js ''EBD-Cluster a-/b''"
    by code_simp
  with normalize_idempotent [of "js ''EBD - Cluster  a -/ b''"] show ?thesis by simp
qed

text \<open>
  Claim C5, as stated: a label row is keyed \<open>LABEL:\<close> followed by the normalized
  description, and when \<open>dataElement\<close> is not empty and the first white-space-delimited
  token of the description is one to ten capitals, digits or underscores, that token is
  one more part of the key. The comparator with \<open>normalizeForComparison\<close> takes the token
  from the normalized description: the description \<open>Z1 / Z2 Kontakt\<close> has the first token
  \<open>Z1\<close>, its normalization \<open>Z1/Z2 Kontakt\<close> has the first token \<open>Z1/Z2\<close>, and the key gets
  no token. The comparator without it (\<open>nrm\<close> the identity) keys a label row by the
  description as stored, which the normalization would change.
\<close>

theorem rowKey_stated_counterexample:
  "\<not> isLabel tokenRow \<and> dataElement tokenRow \<noteq> [] \<and>
   firstToken (beschreibung tokenRow) = js ''Z1'' \<and> codePattern (js ''Z1'') \<and>
   normalizeForComparison (beschreibung tokenRow) = js ''Z1/Z2 Kontakt'' \<and>
   rowKey normalizeForComparison tokenRow = js ''SG2|CTA|3139'' \<and>
   isLabel spacedLabelRow \<and>
   normalizeForComparison (beschreibung spacedLabelRow) = js ''EBD-Cluster'' \<and>
   rowKey (\<lambda>s. s) spacedLabelRow = js ''LABEL:EBD - Cluster''"
  by code_simp

text \<open>
  Claim C5, amended. With \<open>normalize\<close> the function \<open>normalizeForComparison\<close> in the
  comparator that has it and the identity in the other: a label row has the key \<open>LABEL:\<close>
  followed by its normalized description. For another row the normalized values of
  \<open>segmentGroup\<close>, \<open>segmentCode\<close> and \<open>dataElement\<close> that are not empty are joined with \<open>|\<close>;
  when all three are empty the key is \<open>POS:\<close> followed by the decimal numeral of the row's
  position; and when the normalized \<open>dataElement\<close> is not empty, the normalized description
  does not start with white space and its first white-space-delimited token is one to
  ten capitals, digits or underscores, that token is one more part of the key. A
  description normalized by \<open>normalizeForComparison\<close> never starts with white space.
\<close>

theorem rowKey_construction:
  "(isLabel r \<longrightarrow> rowKey nrm r = js ''LABEL:'' @ nrm (beschreibung r)) \<and>
   (\<not> isLabel r \<and> keyParts nrm r = [] \<longrightarrow>
      (\<exists>d. rowKey nrm r = js ''POS:'' @ d \<and> isDecimalOf d (rowOrder r))) \<and>
   (\<not> isLabel r \<and> keyParts nrm r \<noteq> [] \<longrightarrow>
      rowKey nrm r = separatedBy (js ''|'') (keyParts nrm r @ keyToken nrm r)) \<and>
   keyToken normalizeForComparison r =
     (if normalizeForComparison (dataElement r) \<noteq> [] \<and>
         codePattern (firstToken (normalizeForComparison (beschreibung r)))
      then [firstToken (normalizeForComparison (beschreibung r))] else [])"
proof -
  have "keyToken normalizeForComparison r =
     (if normalizeForComparison (dataElement r) \<noteq> [] \<and>
         codePattern (firstToken (normalizeForComparison (beschreibung r)))
      then [firstToken (normalizeForComparison (beschreibung r))] else [])"
    by (simp add: keyToken_def normalize_noSpace)
  moreover have "\<not> isLabel r \<and> keyParts nrm r = [] \<longrightarrow>
      (\<exists>d. rowKey nrm r = js ''POS:'' @ d \<and> isDecimalOf d (rowOrder r))"
    using showNat_decimal [of "rowOrder r"] by (auto simp: rowKey_spec)
  ultimately show ?thesis
    by (simp add: rowKey_spec)
qed

theorem rowKey_construction_witness:
  "isLabel keyLabelRow \<and> rowKey normalizeForComparison keyLabelRow = js ''LABEL:Sendungsdaten'' \<and>
   \<not> isLabel keyPosRow \<and> keyParts normalizeForComparison keyPosRow = [] \<and>
   (\<exists>d. rowKey normalizeForComparison keyPosRow = js ''POS:'' @ d \<and> isDecimalOf d 7) \<and>
   rowKey normalizeForComparison keyPosRow = js ''POS:7'' \<and>
   \<not> isLabel keyCodeRow \<and>
   keyParts normalizeForComparison keyCodeRow = [js ''SG2'', js ''CTA'', js ''3139''] \<and>
   keyToken normalizeForComparison keyCodeRow = [js ''IC''] \<and>
   rowKey normalizeForComparison keyCodeRow = js ''SG2|CTA|3139|IC'' \<and>
   \<not> isLabel tokenRow \<and> keyParts (\<lambda>s. s) tokenRow = [js ''SG2'', js ''CTA'', js ''3139''] \<and>
   keyToken (\<lambda>s. s) tokenRow = [js ''Z1''] \<and>
   rowKey (\<lambda>s. s) tokenRow = js ''SG2|CTA|3139|Z1''"
proof -
  have a: "isLabel keyLabelRow"
    "normalizeForComparison (beschreibung keyLabelRow) = js ''Sendungsdaten''"
    "js ''LABEL:'' @ js ''Sendungsdaten'' = js ''LABEL:Sendungsdaten''"
    by code_simp+
  have b: "\<not> isLabel keyPosRow" "keyParts normalizeForComparison keyPosRow = []"
    "rowOrder keyPosRow = 7" "rowKey normalizeForComparison keyPosRow = js ''POS:7''"
    by code_simp+
  have c: "\<not> isLabel keyCodeRow"
    "keyParts normalizeForComparison keyCodeRow = [js ''SG2'', js ''CTA'', js ''3139'']"
    "keyToken normalizeForComparison keyCodeRow = [js ''IC'']"
    "separatedBy (js ''|'') ([js ''SG2'', js ''CTA'', js ''3139''] @ [js ''IC'']) = js ''SG2|CTA|3139|IC''"
    by code_simp+
  have d: "\<not> isLabel tokenRow"
    "keyParts (\<lambda>s. s) tokenRow = [js ''SG2'', js ''CTA'', js ''3139'']"
    "keyToken (\<lambda>s. s) tokenRow = [js ''Z1'']"
    "separatedBy (js ''|'') ([js ''SG2'', js ''CTA'', js ''3139''] @ [js ''Z1'']) = js ''SG2|CTA|3139|Z1''"
    by code_simp+
  from rowKey_construction [of keyLabelRow normalizeForComparison] a
  have ka: "rowKey normalizeForComparison keyLabelRow = js ''LABEL:Sendungsdaten''"
    by (simp only:)
  from rowKey_construction [of keyPosRow normalizeForComparison] b(1,2)
  have "\<exists>d. rowKey normalizeForComparison keyPosRow = js ''POS:'' @ d \<and> isDecimalOf d (rowOrder keyPosRow)"
    by blast
  then have kb: "\<exists>d. rowKey normalizeForComparison keyPosRow = js ''POS:'' @ d \<and> isDecimalOf d 7"
    by (simp only: b(3))
  from rowKey_construction [of keyCodeRow normalizeForComparison] c(1,2)
  have "rowKey normalizeForComparison keyCodeRow =
      separatedBy (js ''|'') (keyParts normalizeForComparison keyCodeRow @ keyToken normalizeForComparison keyCodeRow)"
    by simp
  then have kc: "rowKey normalizeForComparison keyCodeRow = js ''SG2|CTA|3139|IC''"
    by (simp only: c)
  from rowKey_construction [of tokenRow "\<lambda>s. s"] d(1,2)
  have "rowKey (\<lambda>s. s) tokenRow =
      separatedBy (js ''|'') (keyParts (\<lambda>s. s) tokenRow @ keyToken (\<lambda>s. s) tokenRow)"
    by simp
  then have kd: "rowKey (\<lambda>s. s) tokenRow = js ''SG2|CTA|3139|Z1''"
    by (simp only: d)
  from a(1) ka b(1,2,4) kb c(1-3) kc d(1-3) kd show ?thesis by blast
qed

section \<open>The comparator: lemmas\<close>

lemma foldl_setAdd: "set (foldl setAdd acc xs) = set acc \<union> set xs \<and> (distinct acc \<longrightarrow> distinct (foldl setAdd acc xs))"
  by (induction xs arbitrary: acc) (auto simp: setAdd_def)

lemma set_jsSet [simp]: "set (jsSet xs) = set xs"
  by (simp add: jsSet_def foldl_setAdd)

lemma distinct_jsSet [simp]: "distinct (jsSet xs)"
  by (simp add: jsSet_def foldl_setAdd)

lemma getList_rowMapPush:
  "getList (rowMapPush m k r) k' = (if k' = k then getList m k @ [r] else getList m k')"
  by (induction m k r rule: rowMapPush.induct) (auto simp: getList_def)

lemma keys_rowMapPush: "fst ` set (rowMapPush m k r) = insert k (fst ` set m)"
  by (induction m k r rule: rowMapPush.induct) auto

lemma getList_foldl:
  "getList (foldl (\<lambda>m r. rowMapPush m (f r) r) m rows) k = getList m k @ filter (\<lambda>r. f r = k) rows"
  by (induction rows arbitrary: m) (auto simp: getList_rowMapPush)

lemma keys_foldl:
  "fst ` set (foldl (\<lambda>m r. rowMapPush m (f r) r) m rows) = fst ` set m \<union> f ` set rows"
  by (induction rows arbitrary: m) (simp_all add: keys_rowMapPush)

lemma getList_buildRowMap: "getList (buildRowMap nrm rows) k = rowsWithKey nrm k rows"
  by (simp add: buildRowMap_def getList_foldl rowsWithKey_def) (simp add: getList_def)

lemma keys_buildRowMap: "set (map fst (buildRowMap nrm rows)) = rowKey nrm ` set rows"
  using keys_foldl [of "rowKey nrm" "[]" rows] by (simp add: buildRowMap_def)

lemma collect_append:
  "collect (xs @ ys) =
     (case collect xs of Inl e \<Rightarrow> Inl e
      | Inr a \<Rightarrow> (case collect ys of Inl e \<Rightarrow> Inl e | Inr b \<Rightarrow> Inr (a @ b)))"
  by (induction xs rule: collect.induct) (auto split: sum.splits)

lemma collect_concat:
  "(\<And>x. x \<in> set xs \<Longrightarrow> collect (g x) = Inr (h x)) \<Longrightarrow>
   collect (concat (map g xs)) = Inr (concat (map h xs))"
  by (induction xs) (auto simp: collect_append)

lemma collect_map_Inr [simp]: "collect (map Inr xs) = Inr xs"
  by (induction xs) auto

lemma slots_shift:
  "map (\<lambda>i. g (rowAt (a # l1) i) (rowAt (b # l2) i)) [0..<Suc n] =
   g (Some a) (Some b) # map (\<lambda>i. g (rowAt l1 i) (rowAt l2 i)) [0..<n]"
proof -
  have "[0..<Suc n] = 0 # map Suc [0..<n]"
    by (simp add: upt_conv_Cons map_Suc_upt del: upt_Suc)
  then show ?thesis
    by (simp add: rowAt_def comp_def del: upt_Suc)
qed

lemma slot_diffs:
  "map (\<lambda>i. rowDiffAt nrm k (rowAt l1 i) (rowAt l2 i)) [0..<max (length l1) (length l2)] =
   map Inr (positionalDiffs nrm k l1 l2)"
proof (induction l1 l2 rule: list_induct2')
  case 1
  then show ?case by (simp add: positionalDiffs_def)
next
  case (2 x xs)
  have "map (\<lambda>i. rowDiffAt nrm k (rowAt (x # xs) i) (rowAt [] i)) [0..<length (x # xs)] =
        map (\<lambda>i. Inr (RowRemoved (Some k) ((x # xs) ! i))) [0..<length (x # xs)]"
    by (rule map_cong) (auto simp: rowAt_def)
  also have "\<dots> = map (\<lambda>r. Inr (RowRemoved (Some k) r)) (map (\<lambda>i. (x # xs) ! i) [0..<length (x # xs)])"
    by (simp add: comp_def del: upt_Suc)
  also have "\<dots> = map (\<lambda>r. Inr (RowRemoved (Some k) r)) (x # xs)"
    by (simp only: map_nth)
  finally show ?case by (simp add: positionalDiffs_def comp_def)
next
  case (3 y ys)
  have "map (\<lambda>i. rowDiffAt nrm k (rowAt [] i) (rowAt (y # ys) i)) [0..<length (y # ys)] =
        map (\<lambda>i. Inr (RowAdded (Some k) ((y # ys) ! i))) [0..<length (y # ys)]"
    by (rule map_cong) (auto simp: rowAt_def)
  also have "\<dots> = map (\<lambda>r. Inr (RowAdded (Some k) r)) (map (\<lambda>i. (y # ys) ! i) [0..<length (y # ys)])"
    by (simp add: comp_def del: upt_Suc)
  also have "\<dots> = map (\<lambda>r. Inr (RowAdded (Some k) r)) (y # ys)"
    by (simp only: map_nth)
  finally show ?case by (simp add: positionalDiffs_def comp_def)
next
  case (4 x xs y ys)
  have "max (length (x # xs)) (length (y # ys)) = Suc (max (length xs) (length ys))" by simp
  then show ?case
    using 4 slots_shift [of "rowDiffAt nrm k" x xs y ys "max (length xs) (length ys)"]
    by (simp add: positionalDiffs_def del: upt_Suc)
qed

lemma set_allRowKeys: "set (allRowKeys nrm rows1 rows2) = rowKey nrm ` (set rows1 \<union> set rows2)"
  by (simp add: allRowKeys_def keys_buildRowMap [simplified] image_Un)

lemma distinct_allRowKeys: "distinct (allRowKeys nrm rows1 rows2)"
  by (simp add: allRowKeys_def)

lemma compareRows_char:
  "compareRows nrm rows1 rows2 =
   Inr (concat (map (\<lambda>k. positionalDiffs nrm k (rowsWithKey nrm k rows1) (rowsWithKey nrm k rows2))
                 (allRowKeys nrm rows1 rows2)))"
proof -
  have "map (\<lambda>(key, r1, r2). rowDiffAt nrm key r1 r2) (rowSlots nrm rows1 rows2) =
        concat (map (\<lambda>k. map Inr (positionalDiffs nrm k (rowsWithKey nrm k rows1) (rowsWithKey nrm k rows2)))
                 (allRowKeys nrm rows1 rows2))"
    by (simp add: rowSlots_def Let_def map_concat comp_def getList_buildRowMap allRowKeys_def
        slot_diffs del: upt_Suc)
  then show ?thesis
    by (simp add: compareRows_def collect_concat)
qed

lemma diffRowFields_Nil: "diffRowFields nrm r1 r2 = [] \<longleftrightarrow> fieldsEqual nrm r1 r2"
  by (auto simp: diffRowFields_def fieldsEqual_def textChange_def structChange_def Let_def)

lemma rd_key_positionalDiffs: "d \<in> set (positionalDiffs nrm k l1 l2) \<Longrightarrow> rd_key d = Some k"
  by (auto simp: positionalDiffs_def diffPair_def Let_def)

lemma filter_positionalDiffs:
  "filter (\<lambda>d. rd_key d = Some k) (positionalDiffs nrm k' l1 l2) = (if k' = k then positionalDiffs nrm k' l1 l2 else [])"
  by (auto simp: filter_empty_conv dest: rd_key_positionalDiffs intro!: filter_True)

lemma concat_pick:
  "distinct ks \<Longrightarrow> concat (map (\<lambda>k'. if k' = k then g k' else []) ks) = (if k \<in> set ks then g k else [])"
  by (induction ks) auto

lemma rowsWithKey_Nil: "k \<notin> rowKey nrm ` set rows \<Longrightarrow> rowsWithKey nrm k rows = []"
  by (auto simp: rowsWithKey_def filter_empty_conv)

lemma filter_key_compareRows:
  "compareRows nrm rows1 rows2 = Inr ds \<Longrightarrow>
   filter (\<lambda>d. rd_key d = Some k) ds = positionalDiffs nrm k (rowsWithKey nrm k rows1) (rowsWithKey nrm k rows2)"
proof -
  assume "compareRows nrm rows1 rows2 = Inr ds"
  then have ds: "ds = concat (map (\<lambda>k. positionalDiffs nrm k (rowsWithKey nrm k rows1) (rowsWithKey nrm k rows2))
                 (allRowKeys nrm rows1 rows2))"
    by (simp add: compareRows_char)
  have "filter (\<lambda>d. rd_key d = Some k) ds =
        concat (map (\<lambda>k'. if k' = k then positionalDiffs nrm k' (rowsWithKey nrm k' rows1) (rowsWithKey nrm k' rows2) else [])
                 (allRowKeys nrm rows1 rows2))"
    by (simp add: ds filter_concat comp_def filter_positionalDiffs)
  also have "\<dots> = (if k \<in> set (allRowKeys nrm rows1 rows2)
                    then positionalDiffs nrm k (rowsWithKey nrm k rows1) (rowsWithKey nrm k rows2) else [])"
    by (rule concat_pick) (rule distinct_allRowKeys)
  also have "\<dots> = positionalDiffs nrm k (rowsWithKey nrm k rows1) (rowsWithKey nrm k rows2)"
  proof (cases "k \<in> set (allRowKeys nrm rows1 rows2)")
    case True
    then show ?thesis by simp
  next
    case False
    then have "k \<notin> rowKey nrm ` set rows1" and "k \<notin> rowKey nrm ` set rows2"
      by (auto simp: set_allRowKeys)
    then show ?thesis using False by (simp add: rowsWithKey_Nil positionalDiffs_def)
  qed
  finally show ?thesis .
qed

lemma mset_by_keys:
  "distinct ks \<Longrightarrow>
   mset (concat (map (\<lambda>k. filter (\<lambda>r. f r = k) rs) ks)) = mset (filter (\<lambda>r. f r \<in> set ks) rs)"
proof (induction ks)
  case Nil
  then show ?case by simp
next
  case (Cons k ks)
  have "mset (filter (\<lambda>r. f r = k) rs) + mset (filter (\<lambda>r. f r \<in> set ks) rs) =
        mset (filter (\<lambda>r. f r = k \<or> f r \<in> set ks) rs)"
    using Cons.prems by (induction rs) auto
  with Cons show ?case by simp
qed

lemma mset_rowsWithKey:
  "mset (concat (map (\<lambda>k. rowsWithKey nrm k rows1) (allRowKeys nrm rows1 rows2))) = mset rows1"
  "mset (concat (map (\<lambda>k. rowsWithKey nrm k rows2) (allRowKeys nrm rows1 rows2))) = mset rows2"
proof -
  have a: "filter (\<lambda>r. rowKey nrm r \<in> set (allRowKeys nrm rows1 rows2)) rows1 = rows1"
    by (simp add: set_allRowKeys)
  have b: "filter (\<lambda>r. rowKey nrm r \<in> set (allRowKeys nrm rows1 rows2)) rows2 = rows2"
    by (simp add: set_allRowKeys)
  show "mset (concat (map (\<lambda>k. rowsWithKey nrm k rows1) (allRowKeys nrm rows1 rows2))) = mset rows1"
    unfolding rowsWithKey_def
    by (simp only: mset_by_keys [OF distinct_allRowKeys] a)
  show "mset (concat (map (\<lambda>k. rowsWithKey nrm k rows2) (allRowKeys nrm rows1 rows2))) = mset rows2"
    unfolding rowsWithKey_def
    by (simp only: mset_by_keys [OF distinct_allRowKeys] b)
qed

lemma concat_singletons: "concat (map (\<lambda>x. [g x]) xs) = map g xs"
  by (induction xs) auto

lemma old_positionalDiffs: "concat (map rd_old (positionalDiffs nrm k l1 l2)) = l1"
proof (induction l1 l2 rule: list_induct2')
  case 1
  show ?case by (simp add: positionalDiffs_def)
next
  case (2 x xs)
  show ?case using concat_singletons [of "\<lambda>r. r" xs] by (simp add: positionalDiffs_def comp_def)
next
  case (3 y ys)
  show ?case by (simp add: positionalDiffs_def comp_def)
next
  case (4 x xs y ys)
  then show ?case by (simp add: positionalDiffs_def diffPair_def Let_def)
qed

lemma concat_map_concat:
  "concat (map h (concat (map g ks))) = concat (map (\<lambda>k. concat (map h (g k))) ks)"
  by (induction ks) auto

lemma positionalDiffs_Cons:
  "positionalDiffs nrm k (x # xs) (y # ys) = diffPair nrm k x y # positionalDiffs nrm k xs ys"
  by (simp add: positionalDiffs_def)

lemma positionalDiffs_Nil1: "positionalDiffs nrm k [] ys = map (RowAdded (Some k)) ys"
  by (simp add: positionalDiffs_def)

lemma positionalDiffs_Nil2: "positionalDiffs nrm k xs [] = map (RowRemoved (Some k)) xs"
  by (simp add: positionalDiffs_def)

lemma rd_new_diffPair: "rd_new (diffPair nrm k x y) = (if fieldsEqual nrm x y then [] else [y])"
  by (simp add: diffPair_def Let_def diffRowFields_Nil [symmetric])

lemma new_positionalDiffs:
  "mset (concat (map rd_new (positionalDiffs nrm k l1 l2))) +
   mset (map snd (filter (\<lambda>(r1, r2). fieldsEqual nrm r1 r2) (zip l1 l2))) = mset l2"
proof (induction l1 l2 rule: list_induct2')
  case 1
  show ?case by (simp add: positionalDiffs_Nil1)
next
  case (2 x xs)
  show ?case by (simp add: positionalDiffs_Nil2 comp_def)
next
  case (3 y ys)
  have "concat (map rd_new (map (RowAdded (Some k)) (y # ys))) = y # ys"
    using concat_singletons [of "\<lambda>r. r" "y # ys"] by (simp add: comp_def)
  then show ?case by (simp add: positionalDiffs_Nil1)
next
  case (4 x xs y ys)
  then show ?case by (simp add: positionalDiffs_Cons rd_new_diffPair)
qed

lemma unchanged_positionalDiffs:
  "filter (\<lambda>d. rd_type d = Unchanged) (positionalDiffs nrm k l1 l2) =
   map (\<lambda>(r1, r2). RowUnchanged k r1) (filter (\<lambda>(r1, r2). fieldsEqual nrm r1 r2) (zip l1 l2))"
proof (induction l1 l2 rule: list_induct2')
  case 1
  show ?case by (simp add: positionalDiffs_Nil1)
next
  case (2 x xs)
  show ?case by (simp add: positionalDiffs_Nil2 comp_def)
next
  case (3 y ys)
  show ?case by (simp add: positionalDiffs_Nil1 comp_def)
next
  case (4 x xs y ys)
  have "rd_type (diffPair nrm k x y) = Unchanged \<longleftrightarrow> fieldsEqual nrm x y"
    by (simp add: diffPair_def Let_def diffRowFields_Nil [symmetric])
  moreover have "fieldsEqual nrm x y \<Longrightarrow> diffPair nrm k x y = RowUnchanged k x"
    by (simp add: diffPair_def Let_def diffRowFields_Nil [symmetric])
  ultimately show ?case using 4 by (simp add: positionalDiffs_Cons)
qed

lemma mset_concat_sum:
  "(\<And>k. k \<in> set ks \<Longrightarrow> mset (A k) + mset (B k) = mset (C k)) \<Longrightarrow>
   mset (concat (map A ks)) + mset (concat (map B ks)) = mset (concat (map C ks))"
proof (induction ks)
  case Nil
  then show ?case by simp
next
  case (Cons k ks)
  then have "mset (A k) + mset (B k) = mset (C k)"
    and "mset (concat (map A ks)) + mset (concat (map B ks)) = mset (concat (map C ks))"
    by simp_all
  then show ?case by (simp add: ac_simps)
qed

lemma zip_rowsWithKey:
  "(r1, r2) \<in> set (zip (rowsWithKey nrm k rows1) (rowsWithKey nrm k rows2)) \<Longrightarrow>
   rowKey nrm r1 = k \<and> rowKey nrm r2 = k"
  by (auto simp: rowsWithKey_def dest: set_zip_leftD set_zip_rightD)

lemma compareRows_unchanged:
  "compareRows nrm rows1 rows2 = Inr ds \<Longrightarrow>
   filter (\<lambda>d. rd_type d = Unchanged) ds =
   map (\<lambda>(r1, r2). RowUnchanged (rowKey nrm r2) r1) (unchangedPairs nrm rows1 rows2)"
proof -
  assume "compareRows nrm rows1 rows2 = Inr ds"
  then have ds: "ds = concat (map (\<lambda>k. positionalDiffs nrm k (rowsWithKey nrm k rows1) (rowsWithKey nrm k rows2))
                 (allRowKeys nrm rows1 rows2))"
    by (simp add: compareRows_char)
  have k: "\<And>k. map (\<lambda>(r1, r2). RowUnchanged k r1)
            (filter (\<lambda>(r1, r2). fieldsEqual nrm r1 r2) (zip (rowsWithKey nrm k rows1) (rowsWithKey nrm k rows2))) =
          map (\<lambda>(r1, r2). RowUnchanged (rowKey nrm r2) r1)
            (filter (\<lambda>(r1, r2). fieldsEqual nrm r1 r2) (zip (rowsWithKey nrm k rows1) (rowsWithKey nrm k rows2)))"
    by (rule map_cong) (auto dest: zip_rowsWithKey)
  show ?thesis
    by (simp add: ds filter_concat comp_def unchanged_positionalDiffs k unchangedPairs_def map_concat)
qed

lemma unchangedPairs_props:
  "(r1, r2) \<in> set (unchangedPairs nrm rows1 rows2) \<Longrightarrow>
   rowKey nrm r1 = rowKey nrm r2 \<and> fieldsEqual nrm r1 r2"
  by (auto simp: unchangedPairs_def dest: zip_rowsWithKey)

lemma compareRows_new:
  "compareRows nrm rows1 rows2 = Inr ds \<Longrightarrow>
   mset (concat (map rd_new ds)) + mset (map snd (unchangedPairs nrm rows1 rows2)) = mset rows2"
proof -
  assume "compareRows nrm rows1 rows2 = Inr ds"
  then have ds: "ds = concat (map (\<lambda>k. positionalDiffs nrm k (rowsWithKey nrm k rows1) (rowsWithKey nrm k rows2))
                 (allRowKeys nrm rows1 rows2))"
    by (simp add: compareRows_char)
  have a: "concat (map rd_new ds) =
      concat (map (\<lambda>k. concat (map rd_new (positionalDiffs nrm k (rowsWithKey nrm k rows1) (rowsWithKey nrm k rows2))))
                (allRowKeys nrm rows1 rows2))"
    by (simp add: ds concat_map_concat)
  have b: "map snd (unchangedPairs nrm rows1 rows2) =
      concat (map (\<lambda>k. map snd (filter (\<lambda>(r1, r2). fieldsEqual nrm r1 r2)
                          (zip (rowsWithKey nrm k rows1) (rowsWithKey nrm k rows2))))
                (allRowKeys nrm rows1 rows2))"
    by (simp add: unchangedPairs_def map_concat comp_def)
  have "mset (concat (map (\<lambda>k. concat (map rd_new (positionalDiffs nrm k (rowsWithKey nrm k rows1) (rowsWithKey nrm k rows2))))
                (allRowKeys nrm rows1 rows2))) +
        mset (concat (map (\<lambda>k. map snd (filter (\<lambda>(r1, r2). fieldsEqual nrm r1 r2)
                          (zip (rowsWithKey nrm k rows1) (rowsWithKey nrm k rows2))))
                (allRowKeys nrm rows1 rows2))) =
        mset (concat (map (\<lambda>k. rowsWithKey nrm k rows2) (allRowKeys nrm rows1 rows2)))"
    by (rule mset_concat_sum) (rule new_positionalDiffs)
  then show ?thesis
    by (simp only: a b mset_rowsWithKey)
qed

lemma compareRows_old:
  "compareRows nrm rows1 rows2 = Inr ds \<Longrightarrow> mset (concat (map rd_old ds)) = mset rows1"
proof -
  assume "compareRows nrm rows1 rows2 = Inr ds"
  then have ds: "ds = concat (map (\<lambda>k. positionalDiffs nrm k (rowsWithKey nrm k rows1) (rowsWithKey nrm k rows2))
                 (allRowKeys nrm rows1 rows2))"
    by (simp add: compareRows_char)
  have "concat (map rd_old ds) = concat (map (\<lambda>k. rowsWithKey nrm k rows1) (allRowKeys nrm rows1 rows2))"
    by (simp add: ds concat_map_concat old_positionalDiffs)
  then show ?thesis by (simp add: mset_rowsWithKey)
qed

lemma map_of_foldl_pruef:
  "map_of (foldl pruefMapAdd m ss) k =
     (case map_of m k of Some s \<Rightarrow> Some s | None \<Rightarrow> firstWithKey k ss)"
proof (induction ss arbitrary: m)
  case Nil
  then show ?case by (simp add: firstWithKey_def split: option.splits)
next
  case (Cons s ss)
  show ?case
    by (simp add: Cons.IH) (auto simp: pruefMapAdd_def Let_def firstWithKey_def map_add_def
        split: option.splits)
qed

lemma map_of_buildPruefMap: "map_of (buildPruefMap ss) k = firstWithKey k ss"
  by (simp add: buildPruefMap_def map_of_foldl_pruef)

lemma keys_foldl_pruef:
  "fst ` set (foldl pruefMapAdd m ss) = fst ` set m \<union> pruefidentifikator ` set ss"
proof (induction ss arbitrary: m)
  case Nil
  then show ?case by simp
next
  case (Cons s ss)
  have "fst ` set (pruefMapAdd m s) = insert (pruefidentifikator s) (fst ` set m)"
    by (auto simp: pruefMapAdd_def Let_def map_of_eq_None_iff)
  then show ?case by (simp add: Cons.IH)
qed

lemma keys_buildPruefMap: "fst ` set (buildPruefMap ss) = set (sectionKeys ss)"
  using keys_foldl_pruef [of "[]" ss] by (simp add: buildPruefMap_def sectionKeys_def)

lemma firstWithKey_None: "firstWithKey k ss = None \<longleftrightarrow> k \<notin> set (sectionKeys ss)"
  by (auto simp: firstWithKey_def sectionKeys_def find_None_iff)

lemma firstWithKey_key: "firstWithKey k ss = Some s \<Longrightarrow> pruefidentifikator s = k \<and> s \<in> set ss"
  by (auto simp: firstWithKey_def find_Some_iff)

lemma collect_projr:
  "(\<And>x. x \<in> set xs \<Longrightarrow> \<not> isl x) \<Longrightarrow> collect xs = Inr (map projr xs)"
proof (induction xs rule: collect.induct)
  case 1
  then show ?case by simp
next
  case (2 e xs)
  then show ?case by force
next
  case (3 v xs)
  then show ?case by simp
qed

lemma set_allSectionKeys:
  "set (allSectionKeys db d1 d2) = set (sectionKeys (getSections db d1)) \<union> set (sectionKeys (getSections db d2))"
  by (simp add: allSectionKeys_def keys_buildPruefMap)

lemma distinct_allSectionKeys: "distinct (allSectionKeys db d1 d2)"
  by (simp add: allSectionKeys_def)

lemma sectionDiffAt_ok:
  "o1 \<noteq> None \<or> o2 \<noteq> None \<Longrightarrow> \<not> isl (sectionDiffAt nrm db k o1 o2)"
  by (auto simp: sectionDiffAt_def compareRows_char Let_def split: option.splits)

lemma compareDocuments_char:
  "compareDocuments nrm db d1 d2 =
   Inr \<lparr>summary = foldl countDiff \<lparr>added = 0, removed = 0, modified = 0, unchanged = 0\<rparr>
                   (map (sectionDiffOf nrm db d1 d2) (allSectionKeys db d1 d2)),
        sectionDiffs = sort_key (\<lambda>d. typeOrder (sd_type d))
                   (map (sectionDiffOf nrm db d1 d2) (allSectionKeys db d1 d2))\<rparr>"
proof -
  let ?step = "\<lambda>key. sectionDiffAt nrm db key (firstWithKey key (getSections db d1))
                  (firstWithKey key (getSections db d2))"
  have "\<And>x. x \<in> set (map ?step (allSectionKeys db d1 d2)) \<Longrightarrow> \<not> isl x"
  proof -
    fix x assume "x \<in> set (map ?step (allSectionKeys db d1 d2))"
    then obtain k where k: "k \<in> set (allSectionKeys db d1 d2)" and x: "x = ?step k" by auto
    from k have "firstWithKey k (getSections db d1) \<noteq> None \<or> firstWithKey k (getSections db d2) \<noteq> None"
      by (auto simp: set_allSectionKeys firstWithKey_None)
    then show "\<not> isl x" unfolding x by (rule sectionDiffAt_ok)
  qed
  then have "collect (map ?step (allSectionKeys db d1 d2)) =
             Inr (map projr (map ?step (allSectionKeys db d1 d2)))"
    by (rule collect_projr)
  moreover have "map (sectionDiffOf nrm db d1 d2) (allSectionKeys db d1 d2) =
      map projr (map ?step (allSectionKeys db d1 d2))"
    by (simp add: sectionDiffOf_def)
  ultimately have c: "collect (map ?step (allSectionKeys db d1 d2)) =
      Inr (map (sectionDiffOf nrm db d1 d2) (allSectionKeys db d1 d2))"
    by (simp only:)
  show ?thesis
    by (simp only: compareDocuments_def Let_def map_of_buildPruefMap allSectionKeys_def [symmetric]
        c sum.case)
qed

lemma sd_key_sectionDiffOf:
  "k \<in> set (allSectionKeys db d1 d2) \<Longrightarrow> sd_key (sectionDiffOf nrm db d1 d2 k) = k"
  by (auto simp: sectionDiffOf_def sectionDiffAt_def compareRows_char Let_def set_allSectionKeys
      firstWithKey_None split: option.splits)

lemma filter_key_sections:
  "k \<in> set (allSectionKeys db d1 d2) \<Longrightarrow>
   filter (\<lambda>d. sd_key d = k) (map (sectionDiffOf nrm db d1 d2) (allSectionKeys db d1 d2)) =
   [sectionDiffOf nrm db d1 d2 k]"
proof -
  assume k: "k \<in> set (allSectionKeys db d1 d2)"
  have "\<And>ks. distinct ks \<Longrightarrow> set ks \<subseteq> set (allSectionKeys db d1 d2) \<Longrightarrow>
        filter (\<lambda>d. sd_key d = k) (map (sectionDiffOf nrm db d1 d2) ks) =
        (if k \<in> set ks then [sectionDiffOf nrm db d1 d2 k] else [])"
  proof -
    fix ks show "distinct ks \<Longrightarrow> set ks \<subseteq> set (allSectionKeys db d1 d2) \<Longrightarrow>
        filter (\<lambda>d. sd_key d = k) (map (sectionDiffOf nrm db d1 d2) ks) =
        (if k \<in> set ks then [sectionDiffOf nrm db d1 d2 k] else [])"
      by (induction ks) (auto simp: sd_key_sectionDiffOf)
  qed
  from this [OF distinct_allSectionKeys subset_refl] k show ?thesis by simp
qed

lemma rowKey_rowId: "rowKey nrm (r\<lparr>rowId := x\<rparr>) = rowKey nrm r"
  by (simp add: rowKey_def Let_def)

lemma fieldsEqual_rowId: "fieldsEqual nrm r (r\<lparr>rowId := x\<rparr>)"
  by (simp add: fieldsEqual_def)

lemma rowKey_sameRow: "sameRow r r' \<Longrightarrow> rowKey nrm r' = rowKey nrm r"
  by (metis rowKey_rowId sameRow_def)

lemma fieldsEqual_sameRow: "sameRow r r' \<Longrightarrow> fieldsEqual nrm r r'"
  by (metis fieldsEqual_rowId sameRow_def)

lemma list_all2_filter:
  "list_all2 R xs ys \<Longrightarrow> (\<And>x y. R x y \<Longrightarrow> P x = Q y) \<Longrightarrow> list_all2 R (filter P xs) (filter Q ys)"
  by (induction rule: list_all2_induct) auto

lemma find_all2:
  "list_all2 R xs ys \<Longrightarrow> (\<And>x y. R x y \<Longrightarrow> P x = Q y) \<Longrightarrow> rel_option R (find P xs) (find Q ys)"
  by (induction rule: list_all2_induct) auto

lemma positionalDiffs_copies:
  "list_all2 sameRow l1 l2 \<Longrightarrow> d \<in> set (positionalDiffs nrm k l1 l2) \<Longrightarrow> rd_type d = Unchanged"
proof -
  assume a: "list_all2 sameRow l1 l2" and d: "d \<in> set (positionalDiffs nrm k l1 l2)"
  from a have len: "length l1 = length l2" by (rule list_all2_lengthD)
  with d obtain r r' where z: "(r, r') \<in> set (zip l1 l2)" and dd: "d = diffPair nrm k r r'"
    by (auto simp: positionalDiffs_def)
  from a z have "sameRow r r'" by (auto simp: list_all2_iff)
  then have "diffRowFields nrm r r' = []" by (simp add: diffRowFields_Nil fieldsEqual_sameRow)
  then show ?thesis by (simp add: dd diffPair_def)
qed

lemma compareRows_copies:
  "list_all2 sameRow rows1 rows2 \<Longrightarrow> compareRows nrm rows1 rows2 = Inr ds \<Longrightarrow> d \<in> set ds \<Longrightarrow>
   rd_type d = Unchanged"
proof -
  assume a: "list_all2 sameRow rows1 rows2" and r: "compareRows nrm rows1 rows2 = Inr ds"
    and d: "d \<in> set ds"
  from r d obtain k where "d \<in> set (positionalDiffs nrm k (rowsWithKey nrm k rows1) (rowsWithKey nrm k rows2))"
    by (auto simp: compareRows_char)
  moreover have "list_all2 sameRow (rowsWithKey nrm k rows1) (rowsWithKey nrm k rows2)"
    unfolding rowsWithKey_def using a by (rule list_all2_filter) (simp add: rowKey_sameRow)
  ultimately show ?thesis by (rule positionalDiffs_copies [rotated])
qed

lemma checkMeta_copy: "s' = s\<lparr>secId := x\<rparr> \<Longrightarrow> \<not> checkMetaChanges nrm s s'"
  by (simp add: checkMetaChanges_def)

lemma sectionDiffOf_copy:
  assumes cp: "list_all2 (copyOf db) (getSections db d1) (getSections db d2)"
    and k: "k \<in> set (allSectionKeys db d1 d2)"
  shows "sd_type (sectionDiffOf nrm db d1 d2 k) = Unchanged \<and>
         (\<forall>rd \<in> set (sd_rows (sectionDiffOf nrm db d1 d2 k)). rd_type rd = Unchanged)"
proof -
  have rel: "rel_option (copyOf db) (firstWithKey k (getSections db d1)) (firstWithKey k (getSections db d2))"
    unfolding firstWithKey_def using cp
  proof (rule find_all2)
    fix x y assume "copyOf db x y"
    then have "y = x\<lparr>secId := secId y\<rparr>" by (simp add: copyOf_def)
    then have "pruefidentifikator y = pruefidentifikator (x\<lparr>secId := secId y\<rparr>)" by simp
    then show "(pruefidentifikator x = k) = (pruefidentifikator y = k)" by simp
  qed
  from k have "firstWithKey k (getSections db d1) \<noteq> None \<or> firstWithKey k (getSections db d2) \<noteq> None"
    by (auto simp: set_allSectionKeys firstWithKey_None)
  with rel obtain s1 s2 where s1: "firstWithKey k (getSections db d1) = Some s1"
    and s2: "firstWithKey k (getSections db d2) = Some s2" and c: "copyOf db s1 s2"
    by (cases "firstWithKey k (getSections db d1)"; cases "firstWithKey k (getSections db d2)") auto
  from c have rows: "list_all2 sameRow (getRows db (secId s1)) (getRows db (secId s2))"
    and meta: "\<not> checkMetaChanges nrm s1 s2"
    by (metis copyOf_def, metis copyOf_def checkMeta_copy)
  obtain ds where ds: "compareRows nrm (getRows db (secId s1)) (getRows db (secId s2)) = Inr ds"
    by (simp add: compareRows_char)
  have un: "\<forall>d \<in> set ds. rd_type d = Unchanged"
    using compareRows_copies [OF rows ds] by blast
  then have "\<not> list_ex (\<lambda>d. rd_type d \<noteq> Unchanged) ds" by (simp add: list_ex_iff)
  then have "sectionDiffOf nrm db d1 d2 k = SecMatched Unchanged k s1 s2 [] ds"
    using meta by (simp add: sectionDiffOf_def sectionDiffAt_def s1 s2 ds)
  with un show ?thesis by simp
qed

lemma foldl_countDiff_unchanged:
  "(\<And>d. d \<in> set ds \<Longrightarrow> sd_type d = Unchanged) \<Longrightarrow>
   foldl countDiff s ds = s\<lparr>unchanged := unchanged s + length ds\<rparr>"
  by (induction ds arbitrary: s) (simp_all add: countDiff_def)

lemma sectionKeys_copy:
  "list_all2 (copyOf db) ss1 ss2 \<Longrightarrow> sectionKeys ss2 = sectionKeys ss1"
proof (induction rule: list_all2_induct)
  case Nil
  then show ?case by (simp add: sectionKeys_def)
next
  case (Cons x xs y ys)
  from Cons(1) have "y = x\<lparr>secId := secId y\<rparr>" by (simp add: copyOf_def)
  then have "pruefidentifikator y = pruefidentifikator (x\<lparr>secId := secId y\<rparr>)" by simp
  with Cons show ?case by (simp add: sectionKeys_def)
qed


section \<open>The comparator: claims\<close>

text \<open>
  Claim C1. A section of the old document and a section of the new document whose code
  sets only partially overlap are never matched into one section diff: sections are
  matched on the whole comma-joined key string. A key that only the old document has
  yields exactly one section diff, of type \<open>removed\<close>, for the first old section with that
  key; a key that only the new document has yields exactly one, of type \<open>added\<close>; and the
  two sections of a matched section diff have the very key of the diff. The comparison
  returns a result for every database and every pair of documents.
\<close>

theorem compareDocuments_full_key:
  "\<exists>res. compareDocuments nrm db d1 d2 = Inr res \<and>
     (\<forall>k s1. firstWithKey k (getSections db d1) = Some s1 \<and> k \<notin> set (sectionKeys (getSections db d2)) \<longrightarrow>
        filter (\<lambda>d. sd_key d = k) (sectionDiffs res) =
          [SecRemoved k s1 (map (RowRemoved None) (getRows db (secId s1)))]) \<and>
     (\<forall>k s2. k \<notin> set (sectionKeys (getSections db d1)) \<and> firstWithKey k (getSections db d2) = Some s2 \<longrightarrow>
        filter (\<lambda>d. sd_key d = k) (sectionDiffs res) =
          [SecAdded k s2 (map (RowAdded None) (getRows db (secId s2)))]) \<and>
     (\<forall>t k s1 s2 mc rs. SecMatched t k s1 s2 mc rs \<in> set (sectionDiffs res) \<longrightarrow>
        pruefidentifikator s1 = k \<and> pruefidentifikator s2 = k)"
proof -
  let ?ks = "allSectionKeys db d1 d2"
  let ?diffs = "map (sectionDiffOf nrm db d1 d2) ?ks"
  let ?res = "\<lparr>summary = foldl countDiff \<lparr>added = 0, removed = 0, modified = 0, unchanged = 0\<rparr> ?diffs,
        sectionDiffs = sort_key (\<lambda>d. typeOrder (sd_type d)) ?diffs\<rparr>"
  have res: "compareDocuments nrm db d1 d2 = Inr ?res" by (rule compareDocuments_char)
  have flt: "\<And>k. k \<in> set ?ks \<Longrightarrow>
      filter (\<lambda>d. sd_key d = k) (sectionDiffs ?res) = [sectionDiffOf nrm db d1 d2 k]"
    by (simp add: filter_sort filter_key_sections)
  have rem: "\<And>k s1. firstWithKey k (getSections db d1) = Some s1 \<Longrightarrow>
      k \<notin> set (sectionKeys (getSections db d2)) \<Longrightarrow>
      filter (\<lambda>d. sd_key d = k) (sectionDiffs ?res) =
        [SecRemoved k s1 (map (RowRemoved None) (getRows db (secId s1)))]"
  proof -
    fix k s1
    assume a: "firstWithKey k (getSections db d1) = Some s1"
      and b: "k \<notin> set (sectionKeys (getSections db d2))"
    from a have "k \<in> set ?ks"
      using firstWithKey_None [of k "getSections db d1"] by (auto simp: set_allSectionKeys)
    from flt [OF this] a b
    show "filter (\<lambda>d. sd_key d = k) (sectionDiffs ?res) =
        [SecRemoved k s1 (map (RowRemoved None) (getRows db (secId s1)))]"
      using firstWithKey_None [of k "getSections db d2"]
      by (simp add: sectionDiffOf_def sectionDiffAt_def)
  qed
  have add: "\<And>k s2. k \<notin> set (sectionKeys (getSections db d1)) \<Longrightarrow>
      firstWithKey k (getSections db d2) = Some s2 \<Longrightarrow>
      filter (\<lambda>d. sd_key d = k) (sectionDiffs ?res) =
        [SecAdded k s2 (map (RowAdded None) (getRows db (secId s2)))]"
  proof -
    fix k s2
    assume a: "firstWithKey k (getSections db d2) = Some s2"
      and b: "k \<notin> set (sectionKeys (getSections db d1))"
    from a have "k \<in> set ?ks"
      using firstWithKey_None [of k "getSections db d2"] by (auto simp: set_allSectionKeys)
    from flt [OF this] a b
    show "filter (\<lambda>d. sd_key d = k) (sectionDiffs ?res) =
        [SecAdded k s2 (map (RowAdded None) (getRows db (secId s2)))]"
      using firstWithKey_None [of k "getSections db d1"]
      by (simp add: sectionDiffOf_def sectionDiffAt_def)
  qed
  have mat: "\<And>t k s1 s2 mc rs. SecMatched t k s1 s2 mc rs \<in> set (sectionDiffs ?res) \<Longrightarrow>
      pruefidentifikator s1 = k \<and> pruefidentifikator s2 = k"
  proof -
    fix t k s1 s2 mc rs
    assume "SecMatched t k s1 s2 mc rs \<in> set (sectionDiffs ?res)"
    then obtain k' where k': "k' \<in> set ?ks" and eq: "sectionDiffOf nrm db d1 d2 k' = SecMatched t k s1 s2 mc rs"
      by auto
    from k' have "firstWithKey k' (getSections db d1) \<noteq> None \<or> firstWithKey k' (getSections db d2) \<noteq> None"
      by (auto simp: set_allSectionKeys firstWithKey_None)
    with eq show "pruefidentifikator s1 = k \<and> pruefidentifikator s2 = k"
      by (auto simp: sectionDiffOf_def sectionDiffAt_def compareRows_char Let_def
          split: option.splits dest: firstWithKey_key)
  qed
  show ?thesis
    using res rem add mat by blast
qed

lemma overlap_example:
  "compareDocuments normalizeForComparison overlapDb 1 2 =
   Inr \<lparr>summary = \<lparr>added = 1, removed = 1, modified = 0, unchanged = 0\<rparr>,
        sectionDiffs =
          [SecAdded (js ''21025,21027'') (mkSection 2 0 ''Neu'' ''21025,21027'')
             [RowAdded None (mkRow 2 0 ''SG2'' ''CTA'' ''3139'' ''IC'' ''X'' [] [] False)],
           SecRemoved (js ''21025,21026,21027'') (mkSection 1 0 ''Alt'' ''21025,21026,21027'')
             [RowRemoved None (mkRow 1 0 ''SG2'' ''CTA'' ''3139'' ''IC'' ''Muss'' [] [] False)]]\<rparr>"
  by code_simp

theorem compareDocuments_full_key_witness:
  "firstWithKey (js ''21025,21026,21027'') (getSections overlapDb 1) =
     Some (mkSection 1 0 ''Alt'' ''21025,21026,21027'') \<and>
   js ''21025,21026,21027'' \<notin> set (sectionKeys (getSections overlapDb 2)) \<and>
   js ''21025,21027'' \<notin> set (sectionKeys (getSections overlapDb 1)) \<and>
   firstWithKey (js ''21025,21027'') (getSections overlapDb 2) =
     Some (mkSection 2 0 ''Neu'' ''21025,21027'') \<and>
   (\<exists>res. compareDocuments normalizeForComparison overlapDb 1 2 = Inr res \<and>
      filter (\<lambda>d. sd_key d = js ''21025,21026,21027'') (sectionDiffs res) =
        [SecRemoved (js ''21025,21026,21027'') (mkSection 1 0 ''Alt'' ''21025,21026,21027'')
           (map (RowRemoved None) (getRows overlapDb (secId (mkSection 1 0 ''Alt'' ''21025,21026,21027''))))] \<and>
      filter (\<lambda>d. sd_key d = js ''21025,21027'') (sectionDiffs res) =
        [SecAdded (js ''21025,21027'') (mkSection 2 0 ''Neu'' ''21025,21027'')
           (map (RowAdded None) (getRows overlapDb (secId (mkSection 2 0 ''Neu'' ''21025,21027''))))])"
proof -
  have h1: "firstWithKey (js ''21025,21026,21027'') (getSections overlapDb 1) =
     Some (mkSection 1 0 ''Alt'' ''21025,21026,21027'')"
    by code_simp
  have h2: "js ''21025,21026,21027'' \<notin> set (sectionKeys (getSections overlapDb 2))"
    by code_simp
  have h3: "js ''21025,21027'' \<notin> set (sectionKeys (getSections overlapDb 1))"
    by code_simp
  have h4: "firstWithKey (js ''21025,21027'') (getSections overlapDb 2) =
     Some (mkSection 2 0 ''Neu'' ''21025,21027'')"
    by code_simp
  from compareDocuments_full_key [of normalizeForComparison overlapDb 1 2] h1 h2 h3 h4
  show ?thesis by blast
qed

text \<open>A document in which a key recurs: the parser opens a new section whenever the key of
  a section header differs from the key of the current section.\<close>

lemma recurring_key_pages:
  "map p_pruefidentifikator (buildSections lowerLatin1 [recurringPage]) =
   [[js ''21000''], [js ''21001''], [js ''21000'']]"
  by code_simp

text \<open>
  Claim C2, as stated: comparing a document with an identical copy gives the summary
  \<open>{added: 0, removed: 0, modified: 0, unchanged: N}\<close> with N the number of sections of
  the document. It fails for a document in which a key recurs: \<open>buildPruefMap\<close> keeps the
  first section of a key only, so the copy of a document with the sections 21000, 21001,
  21000 gives \<open>unchanged: 2\<close> for three sections. The parser builds such a document from
  pages on which the header of 21000 comes back after the header of 21001
  (\<open>recurring_key_pages\<close>).
\<close>

theorem identity_summary_counterexample:
  "list_all2 (copyOf dupDb) (getSections dupDb 1) (getSections dupDb 2) \<and>
   length (getSections dupDb 1) = 3 \<and>
   map_sum id summary (compareDocuments normalizeForComparison dupDb 1 2) =
     Inr \<lparr>added = 0, removed = 0, modified = 0, unchanged = 2\<rparr>"
  by code_simp

text \<open>
  Claim C2, amended: comparing a document with an identical copy gives the summary
  \<open>{added: 0, removed: 0, modified: 0, unchanged: N}\<close> with N the number of distinct keys
  of the document, which is its number of sections when no key recurs; every section diff
  and every row diff of the result is \<open>unchanged\<close>.
\<close>

theorem compareDocuments_identity:
  assumes cp: "list_all2 (copyOf db) (getSections db d1) (getSections db d2)"
  shows "\<exists>res. compareDocuments nrm db d1 d2 = Inr res \<and>
     summary res = \<lparr>added = 0, removed = 0, modified = 0,
                     unchanged = card (set (sectionKeys (getSections db d1)))\<rparr> \<and>
     list_all (\<lambda>sd. sd_type sd = Unchanged \<and> list_all (\<lambda>rd. rd_type rd = Unchanged) (sd_rows sd))
       (sectionDiffs res) \<and>
     (distinct (sectionKeys (getSections db d1)) \<longrightarrow>
        unchanged (summary res) = length (getSections db d1))"
proof -
  let ?ks = "allSectionKeys db d1 d2"
  let ?diffs = "map (sectionDiffOf nrm db d1 d2) ?ks"
  let ?res = "\<lparr>summary = foldl countDiff \<lparr>added = 0, removed = 0, modified = 0, unchanged = 0\<rparr> ?diffs,
        sectionDiffs = sort_key (\<lambda>d. typeOrder (sd_type d)) ?diffs\<rparr>"
  have res: "compareDocuments nrm db d1 d2 = Inr ?res" by (rule compareDocuments_char)
  have each: "\<And>d. d \<in> set ?diffs \<Longrightarrow>
      sd_type d = Unchanged \<and> (\<forall>rd \<in> set (sd_rows d). rd_type rd = Unchanged)"
    using sectionDiffOf_copy [OF cp] by auto
  have keys: "set ?ks = set (sectionKeys (getSections db d1))"
    by (simp add: set_allSectionKeys sectionKeys_copy [OF cp])
  have len: "length ?diffs = card (set (sectionKeys (getSections db d1)))"
    using distinct_card [OF distinct_allSectionKeys, of db d1 d2] by (simp add: keys)
  have sm: "summary ?res = \<lparr>added = 0, removed = 0, modified = 0,
                     unchanged = card (set (sectionKeys (getSections db d1)))\<rparr>"
    using foldl_countDiff_unchanged [of ?diffs "\<lparr>added = 0, removed = 0, modified = 0, unchanged = 0\<rparr>"]
      each len by simp
  have al: "list_all (\<lambda>sd. sd_type sd = Unchanged \<and> list_all (\<lambda>rd. rd_type rd = Unchanged) (sd_rows sd))
       (sectionDiffs ?res)"
    using each by (simp add: list_all_iff)
  have di: "distinct (sectionKeys (getSections db d1)) \<longrightarrow>
        unchanged (summary ?res) = length (getSections db d1)"
  proof
    assume "distinct (sectionKeys (getSections db d1))"
    then have "card (set (sectionKeys (getSections db d1))) = length (sectionKeys (getSections db d1))"
      by (rule distinct_card)
    moreover have "unchanged (summary ?res) = card (set (sectionKeys (getSections db d1)))"
      by (subst sm) simp
    ultimately show "unchanged (summary ?res) = length (getSections db d1)"
      by (simp only: sectionKeys_def length_map)
  qed
  show ?thesis using res sm al di by blast
qed

theorem compareDocuments_identity_witness:
  "list_all2 (copyOf dupDb) (getSections dupDb 1) (getSections dupDb 2) \<and>
   (\<exists>res. compareDocuments normalizeForComparison dupDb 1 2 = Inr res \<and>
      summary res = \<lparr>added = 0, removed = 0, modified = 0,
                      unchanged = card (set (sectionKeys (getSections dupDb 1)))\<rparr> \<and>
      list_all (\<lambda>sd. sd_type sd = Unchanged \<and> list_all (\<lambda>rd. rd_type rd = Unchanged) (sd_rows sd))
        (sectionDiffs res)) \<and>
   list_all2 (copyOf overlapDb) (getSections overlapDb 1) (getSections overlapDb 1) \<and>
   distinct (sectionKeys (getSections overlapDb 1)) \<and>
   (\<exists>res. compareDocuments normalizeForComparison overlapDb 1 1 = Inr res \<and>
      unchanged (summary res) = length (getSections overlapDb 1))"
proof -
  have h1: "list_all2 (copyOf dupDb) (getSections dupDb 1) (getSections dupDb 2)"
    by code_simp
  have h2: "list_all2 (copyOf overlapDb) (getSections overlapDb 1) (getSections overlapDb 1)"
    by code_simp
  have h3: "distinct (sectionKeys (getSections overlapDb 1))"
    by code_simp
  from compareDocuments_identity [OF h1, of normalizeForComparison]
    compareDocuments_identity [OF h2, of normalizeForComparison] h1 h2 h3
  show ?thesis by blast
qed

text \<open>
  Claim C3, as stated: every row of the old section and every row of the new section
  appears in exactly one row diff of the output of \<open>compareRows\<close>. It fails for the new
  row of a pair that is found unchanged: the row diff of the pair is
  \<open>{type: 'unchanged', key, row: r1}\<close> and stores the old row only. With two old rows and
  three new rows of one key, the first pair unchanged, the new row with the id 11 is in
  no row diff of the output, with and without the normalization.
\<close>

theorem conservation_stated_counterexample:
  "map rowId oldRows = [1, 2] \<and> map rowId newRows = [11, 12, 13] \<and>
   map_sum id (map rd_type) (compareRows normalizeForComparison oldRows newRows) =
     Inr [Unchanged, Modified, Added] \<and>
   map_sum id (\<lambda>ds. map (\<lambda>d. map rowId (rd_rows d)) ds)
     (compareRows normalizeForComparison oldRows newRows) = Inr [[1], [2, 12], [13]] \<and>
   map_sum id (\<lambda>ds. map (\<lambda>d. map rowId (rd_rows d)) ds)
     (compareRows (\<lambda>s. s) oldRows newRows) = Inr [[1], [2, 12], [13]]"
  by code_simp

text \<open>
  Claim C3, amended. The row-matching pass conserves rows, and no run of it fails. Every
  row of the old section is stored in exactly one row diff of the output: the old rows
  that the row diffs store are the old section's rows, each as often as it occurs
  there. Every row of the new section is either stored in exactly one row diff (the row
  of an \<open>added\<close> diff, the new row of a \<open>modified\<close> diff) or is the new row of exactly one
  pair found unchanged: the new rows that the row diffs store, together with the new
  rows of the unchanged pairs, are the new section's rows, each as often as it occurs
  there. The \<open>unchanged\<close> row diffs of the output are, in order, those of the unchanged
  pairs; each stores the old row of its pair only, under the key the two rows share, and
  the two rows are equal on the compared fields.
\<close>

theorem compareRows_conserves_rows:
  "\<exists>ds. compareRows nrm rows1 rows2 = Inr ds \<and>
     mset (concat (map rd_old ds)) = mset rows1 \<and>
     mset (concat (map rd_new ds)) + mset (map snd (unchangedPairs nrm rows1 rows2)) = mset rows2 \<and>
     filter (\<lambda>d. rd_type d = Unchanged) ds =
       map (\<lambda>(r1, r2). RowUnchanged (rowKey nrm r2) r1) (unchangedPairs nrm rows1 rows2) \<and>
     list_all (\<lambda>(r1, r2). rowKey nrm r1 = rowKey nrm r2 \<and> fieldsEqual nrm r1 r2)
       (unchangedPairs nrm rows1 rows2)"
proof -
  obtain ds where r: "compareRows nrm rows1 rows2 = Inr ds"
    by (simp add: compareRows_char)
  have "list_all (\<lambda>(r1, r2). rowKey nrm r1 = rowKey nrm r2 \<and> fieldsEqual nrm r1 r2)
       (unchangedPairs nrm rows1 rows2)"
    by (auto simp: list_all_iff dest: unchangedPairs_props)
  with r compareRows_old [OF r] compareRows_new [OF r] compareRows_unchanged [OF r]
  show ?thesis by blast
qed

theorem compareRows_conserves_rows_witness:
  "\<exists>ds. compareRows normalizeForComparison oldRows newRows = Inr ds \<and>
     length ds = 3 \<and>
     mset (concat (map rd_old ds)) = mset oldRows \<and>
     mset (concat (map rd_new ds)) +
       mset (map snd (unchangedPairs normalizeForComparison oldRows newRows)) = mset newRows \<and>
     map (\<lambda>(r1, r2). (rowId r1, rowId r2)) (unchangedPairs normalizeForComparison oldRows newRows) =
       [(1, 11)]"
proof -
  from compareRows_conserves_rows [of normalizeForComparison oldRows newRows]
  obtain ds where r: "compareRows normalizeForComparison oldRows newRows = Inr ds"
    and rest: "mset (concat (map rd_old ds)) = mset oldRows"
      "mset (concat (map rd_new ds)) +
         mset (map snd (unchangedPairs normalizeForComparison oldRows newRows)) = mset newRows"
    by blast
  have "map_sum id length (compareRows normalizeForComparison oldRows newRows) = Inr 3"
    by code_simp
  with r have len: "length ds = 3" by simp
  have pairs: "map (\<lambda>(r1, r2). (rowId r1, rowId r2)) (unchangedPairs normalizeForComparison oldRows newRows) =
       [(1, 11)]"
    by code_simp
  show ?thesis
    by (rule exI [of _ ds]) (simp only: r len rest pairs simp_thms)
qed

text \<open>
  Claim C6. For every compound key the old rows and the new rows with that key are paired
  by position, and every row left over on the longer side gets a row diff of its own,
  \<open>removed\<close> on the old side and \<open>added\<close> on the new side: the row diffs with the key are,
  in order, the diffs of the pairs, then the leftover old rows, then the leftover new
  rows. Two old and three new rows with one key give two paired row diffs, each
  \<open>modified\<close> or \<open>unchanged\<close>, and one \<open>added\<close> row diff for the third new row. Every row
  diff of the result has a key.
\<close>

theorem compareRows_positional:
  "\<exists>ds. compareRows nrm rows1 rows2 = Inr ds \<and>
     list_all (\<lambda>d. rd_key d \<noteq> None) ds \<and>
     (\<forall>k. filter (\<lambda>d. rd_key d = Some k) ds =
            positionalDiffs nrm k (rowsWithKey nrm k rows1) (rowsWithKey nrm k rows2)) \<and>
     (\<forall>k a1 a2 b1 b2 b3.
        rowsWithKey nrm k rows1 = [a1, a2] \<and> rowsWithKey nrm k rows2 = [b1, b2, b3] \<longrightarrow>
        filter (\<lambda>d. rd_key d = Some k) ds =
          [diffPair nrm k a1 b1, diffPair nrm k a2 b2, RowAdded (Some k) b3]) \<and>
     (\<forall>k a b. rd_type (diffPair nrm k a b) = (if fieldsEqual nrm a b then Unchanged else Modified))"
proof -
  let ?ds = "concat (map (\<lambda>k. positionalDiffs nrm k (rowsWithKey nrm k rows1) (rowsWithKey nrm k rows2))
                 (allRowKeys nrm rows1 rows2))"
  have r: "compareRows nrm rows1 rows2 = Inr ?ds" by (rule compareRows_char)
  have keyed: "list_all (\<lambda>d. rd_key d \<noteq> None) ?ds"
    by (auto simp: list_all_iff dest: rd_key_positionalDiffs)
  have pos: "\<And>k. filter (\<lambda>d. rd_key d = Some k) ?ds =
            positionalDiffs nrm k (rowsWithKey nrm k rows1) (rowsWithKey nrm k rows2)"
    using r by (rule filter_key_compareRows)
  have two: "\<And>k a1 a2 b1 b2 b3.
        rowsWithKey nrm k rows1 = [a1, a2] \<and> rowsWithKey nrm k rows2 = [b1, b2, b3] \<Longrightarrow>
        filter (\<lambda>d. rd_key d = Some k) ?ds =
          [diffPair nrm k a1 b1, diffPair nrm k a2 b2, RowAdded (Some k) b3]"
    by (simp only: pos) (simp add: positionalDiffs_def)
  have ty: "\<And>k a b. rd_type (diffPair nrm k a b) = (if fieldsEqual nrm a b then Unchanged else Modified)"
    by (simp add: diffPair_def Let_def diffRowFields_Nil [symmetric])
  show ?thesis using r keyed pos two ty by blast
qed

lemma positional_example:
  "compareRows normalizeForComparison oldRows newRows =
   Inr [RowUnchanged (js ''SG2|CTA|3139|IC'') (mkRow 1 0 ''SG2'' ''CTA'' ''3139'' ''IC'' ''Muss'' [] [] False),
        RowModified (js ''SG2|CTA|3139|IC'')
          (mkRow 2 1 ''SG2'' ''CTA'' ''3139'' ''IC'' ''Muss'' [] [] False)
          (mkRow 12 1 ''SG2'' ''CTA'' ''3139'' ''IC'' ''X'' [] [] False)
          [\<lparr>field = ''statusCol1'', old = js ''Muss'', new = js ''X''\<rparr>],
        RowAdded (Some (js ''SG2|CTA|3139|IC''))
          (mkRow 13 2 ''SG2'' ''CTA'' ''3139'' ''IC'' ''Kann'' [] [] False)]"
  by code_simp

theorem compareRows_positional_witness:
  "rowsWithKey normalizeForComparison (js ''SG2|CTA|3139|IC'') oldRows =
     [mkRow 1 0 ''SG2'' ''CTA'' ''3139'' ''IC'' ''Muss'' [] [] False,
      mkRow 2 1 ''SG2'' ''CTA'' ''3139'' ''IC'' ''Muss'' [] [] False] \<and>
   rowsWithKey normalizeForComparison (js ''SG2|CTA|3139|IC'') newRows =
     [mkRow 11 0 ''SG2'' ''CTA'' ''3139'' ''IC'' ''Muss'' [] [] False,
      mkRow 12 1 ''SG2'' ''CTA'' ''3139'' ''IC'' ''X'' [] [] False,
      mkRow 13 2 ''SG2'' ''CTA'' ''3139'' ''IC'' ''Kann'' [] [] False] \<and>
   (\<exists>ds. compareRows normalizeForComparison oldRows newRows = Inr ds \<and>
      filter (\<lambda>d. rd_key d = Some (js ''SG2|CTA|3139|IC'')) ds =
        [diffPair normalizeForComparison (js ''SG2|CTA|3139|IC'')
           (mkRow 1 0 ''SG2'' ''CTA'' ''3139'' ''IC'' ''Muss'' [] [] False)
           (mkRow 11 0 ''SG2'' ''CTA'' ''3139'' ''IC'' ''Muss'' [] [] False),
         diffPair normalizeForComparison (js ''SG2|CTA|3139|IC'')
           (mkRow 2 1 ''SG2'' ''CTA'' ''3139'' ''IC'' ''Muss'' [] [] False)
           (mkRow 12 1 ''SG2'' ''CTA'' ''3139'' ''IC'' ''X'' [] [] False),
         RowAdded (Some (js ''SG2|CTA|3139|IC''))
           (mkRow 13 2 ''SG2'' ''CTA'' ''3139'' ''IC'' ''Kann'' [] [] False)])"
proof -
  have h1: "rowsWithKey normalizeForComparison (js ''SG2|CTA|3139|IC'') oldRows =
     [mkRow 1 0 ''SG2'' ''CTA'' ''3139'' ''IC'' ''Muss'' [] [] False,
      mkRow 2 1 ''SG2'' ''CTA'' ''3139'' ''IC'' ''Muss'' [] [] False]"
    by code_simp
  have h2: "rowsWithKey normalizeForComparison (js ''SG2|CTA|3139|IC'') newRows =
     [mkRow 11 0 ''SG2'' ''CTA'' ''3139'' ''IC'' ''Muss'' [] [] False,
      mkRow 12 1 ''SG2'' ''CTA'' ''3139'' ''IC'' ''X'' [] [] False,
      mkRow 13 2 ''SG2'' ''CTA'' ''3139'' ''IC'' ''Kann'' [] [] False]"
    by code_simp
  from compareRows_positional [of normalizeForComparison oldRows newRows] h1 h2
  show ?thesis by blast
qed

text \<open>
  Claim C10. Every row diff of type \<open>modified\<close> that the row-matching pass produces
  carries a non-empty list of field changes, the list \<open>diffRowFields\<close> gives for its two
  rows; and a positionally paired row whose compared fields are all equal yields a row
  diff of type \<open>unchanged\<close>.
\<close>

theorem modified_rows_carry_changes:
  "\<exists>ds. compareRows nrm rows1 rows2 = Inr ds \<and>
     list_all (\<lambda>d. case d of
                 RowModified k r1 r2 ch \<Rightarrow> ch \<noteq> [] \<and> ch = diffRowFields nrm r1 r2
               | _ \<Rightarrow> True) ds \<and>
     (\<forall>k i. i < length (rowsWithKey nrm k rows1) \<and> i < length (rowsWithKey nrm k rows2) \<and>
            fieldsEqual nrm (rowsWithKey nrm k rows1 ! i) (rowsWithKey nrm k rows2 ! i) \<longrightarrow>
            filter (\<lambda>d. rd_key d = Some k) ds ! i = RowUnchanged k (rowsWithKey nrm k rows1 ! i))"
proof -
  let ?ds = "concat (map (\<lambda>k. positionalDiffs nrm k (rowsWithKey nrm k rows1) (rowsWithKey nrm k rows2))
                 (allRowKeys nrm rows1 rows2))"
  have r: "compareRows nrm rows1 rows2 = Inr ?ds" by (rule compareRows_char)
  have one: "\<And>d k l1 l2. d \<in> set (positionalDiffs nrm k l1 l2) \<Longrightarrow>
      (case d of RowModified k r1 r2 ch \<Rightarrow> ch \<noteq> [] \<and> ch = diffRowFields nrm r1 r2 | _ \<Rightarrow> True)"
    by (auto simp: positionalDiffs_def diffPair_def Let_def)
  have all: "list_all (\<lambda>d. case d of
                 RowModified k r1 r2 ch \<Rightarrow> ch \<noteq> [] \<and> ch = diffRowFields nrm r1 r2
               | _ \<Rightarrow> True) ?ds"
    unfolding list_all_iff using one by auto
  have un: "\<And>k i. i < length (rowsWithKey nrm k rows1) \<and> i < length (rowsWithKey nrm k rows2) \<and>
            fieldsEqual nrm (rowsWithKey nrm k rows1 ! i) (rowsWithKey nrm k rows2 ! i) \<Longrightarrow>
            filter (\<lambda>d. rd_key d = Some k) ?ds ! i = RowUnchanged k (rowsWithKey nrm k rows1 ! i)"
  proof -
    fix k i
    assume a: "i < length (rowsWithKey nrm k rows1) \<and> i < length (rowsWithKey nrm k rows2) \<and>
            fieldsEqual nrm (rowsWithKey nrm k rows1 ! i) (rowsWithKey nrm k rows2 ! i)"
    then have "diffRowFields nrm (rowsWithKey nrm k rows1 ! i) (rowsWithKey nrm k rows2 ! i) = []"
      by (simp add: diffRowFields_Nil)
    then have dp: "diffPair nrm k (rowsWithKey nrm k rows1 ! i) (rowsWithKey nrm k rows2 ! i) =
        RowUnchanged k (rowsWithKey nrm k rows1 ! i)"
      by (simp add: diffPair_def)
    have "positionalDiffs nrm k (rowsWithKey nrm k rows1) (rowsWithKey nrm k rows2) ! i =
        diffPair nrm k (rowsWithKey nrm k rows1 ! i) (rowsWithKey nrm k rows2 ! i)"
      using a by (simp add: positionalDiffs_def nth_append)
    then show "filter (\<lambda>d. rd_key d = Some k) ?ds ! i = RowUnchanged k (rowsWithKey nrm k rows1 ! i)"
      by (simp only: filter_key_compareRows [OF r] dp)
  qed
  show ?thesis using r all un by blast
qed

theorem modified_rows_carry_changes_witness:
  "0 < length (rowsWithKey normalizeForComparison (js ''SG2|CTA|3139|IC'') oldRows) \<and>
   0 < length (rowsWithKey normalizeForComparison (js ''SG2|CTA|3139|IC'') newRows) \<and>
   fieldsEqual normalizeForComparison
     (rowsWithKey normalizeForComparison (js ''SG2|CTA|3139|IC'') oldRows ! 0)
     (rowsWithKey normalizeForComparison (js ''SG2|CTA|3139|IC'') newRows ! 0) \<and>
   (\<exists>ds. compareRows normalizeForComparison oldRows newRows = Inr ds \<and>
      filter (\<lambda>d. rd_key d = Some (js ''SG2|CTA|3139|IC'')) ds ! 0 =
        RowUnchanged (js ''SG2|CTA|3139|IC'')
          (rowsWithKey normalizeForComparison (js ''SG2|CTA|3139|IC'') oldRows ! 0))"
proof -
  have h1: "0 < length (rowsWithKey normalizeForComparison (js ''SG2|CTA|3139|IC'') oldRows)"
    by code_simp
  have h2: "0 < length (rowsWithKey normalizeForComparison (js ''SG2|CTA|3139|IC'') newRows)"
    by code_simp
  have h3: "fieldsEqual normalizeForComparison
     (rowsWithKey normalizeForComparison (js ''SG2|CTA|3139|IC'') oldRows ! 0)
     (rowsWithKey normalizeForComparison (js ''SG2|CTA|3139|IC'') newRows ! 0)"
    by code_simp
  from modified_rows_carry_changes [of normalizeForComparison oldRows newRows] h1 h2 h3
  show ?thesis by blast
qed

section \<open>The structurer: lemmas\<close>


lemma startsWith_iff: "startsWith s p \<longleftrightarrow> (\<exists>q. s = p @ q)"
  by (induction s p rule: startsWith.induct) auto

lemma jsIncludes_iff: "jsIncludes s sub \<longleftrightarrow> contains s sub"
proof (induction s)
  case Nil
  then show ?case by (auto simp: contains_def)
next
  case (Cons c cs)
  have "contains (c # cs) sub \<longleftrightarrow> (\<exists>q. c # cs = sub @ q) \<or> contains cs sub"
  proof
    assume "contains (c # cs) sub"
    then obtain p q where pq: "c # cs = p @ sub @ q" by (auto simp: contains_def)
    show "(\<exists>q. c # cs = sub @ q) \<or> contains cs sub"
    proof (cases p)
      case Nil
      with pq show ?thesis by auto
    next
      case (Cons a p')
      with pq have "cs = p' @ sub @ q" by simp
      then show ?thesis by (auto simp: contains_def)
    qed
  next
    assume "(\<exists>q. c # cs = sub @ q) \<or> contains cs sub"
    then show "contains (c # cs) sub"
    proof
      assume "\<exists>q. c # cs = sub @ q"
      then obtain q where "c # cs = [] @ sub @ q" by auto
      then show ?thesis unfolding contains_def by blast
    next
      assume "contains cs sub"
      then obtain p q where "cs = p @ sub @ q" by (auto simp: contains_def)
      then have "c # cs = (c # p) @ sub @ q" by simp
      then show ?thesis unfolding contains_def by blast
    qed
  qed
  with Cons show ?case by (simp add: startsWith_iff)
qed

lemma digitsN_iff:
  "digitsN n s = Some r \<longleftrightarrow> (\<exists>a. s = a @ r \<and> length a = n \<and> list_all isDigit a)"
proof
  assume "digitsN n s = Some r"
  then have "n \<le> length s" and "list_all isDigit (take n s)" and "r = drop n s"
    by (auto simp: digitsN_def split: if_splits)
  then have "s = take n s @ r \<and> length (take n s) = n \<and> list_all isDigit (take n s)"
    by simp
  then show "\<exists>a. s = a @ r \<and> length a = n \<and> list_all isDigit a" by blast
next
  assume "\<exists>a. s = a @ r \<and> length a = n \<and> list_all isDigit a"
  then obtain a where "s = a @ r" "length a = n" "list_all isDigit a" by blast
  then show "digitsN n s = Some r" by (simp add: digitsN_def)
qed

lemma testFiveDigits_iff: "testFiveDigits t \<longleftrightarrow> isFiveDigitCode t"
  by (auto simp: testFiveDigits_def isFiveDigitCode_def digitsN_iff)

lemma digit_not_space: "isDigit c \<Longrightarrow> \<not> isSpace c"
  by (auto simp: isDigit_def isSpace_def)

lemma skipSpaces_sep:
  "list_all isSpace sep \<Longrightarrow> isFiveDigitCode b \<Longrightarrow> skipSpaces (sep @ b) = b"
proof -
  assume s: "list_all isSpace sep" and b: "isFiveDigitCode b"
  from b obtain d b' where "b = d # b'" "isDigit d"
    by (cases b) (auto simp: isFiveDigitCode_def)
  then have "dropWhile isSpace b = b" by (simp add: digit_not_space)
  with s show ?thesis
    by (simp add: skipSpaces_def dropWhile_append list_all_iff)
qed

lemma testTwoCodes_iff: "testTwoCodes t \<longleftrightarrow> isTwoSpacedCodes t"
proof
  assume "testTwoCodes t"
  then obtain r c r' where r: "digitsN 5 t = Some r" and rc: "r = c # r'" and c: "isSpace c"
    and d: "digitsN 5 (skipSpaces r') = Some []"
    by (auto simp: testTwoCodes_def split: option.splits list.splits)
  from r obtain a where a: "t = a @ r" "length a = 5" "list_all isDigit a"
    by (auto simp: digitsN_iff)
  from d have b: "isFiveDigitCode (skipSpaces r')"
    by (auto simp: digitsN_iff isFiveDigitCode_def)
  have "r = (c # takeWhile isSpace r') @ skipSpaces r'"
    by (simp add: rc skipSpaces_def)
  moreover have "list_all isSpace (c # takeWhile isSpace r')"
    using c by (auto simp: list_all_iff dest: set_takeWhileD)
  ultimately show "isTwoSpacedCodes t"
    unfolding isTwoSpacedCodes_def using a b
    by (intro exI [of _ a] exI [of _ "c # takeWhile isSpace r'"] exI [of _ "skipSpaces r'"])
       (simp add: isFiveDigitCode_def)
next
  assume "isTwoSpacedCodes t"
  then obtain a sep b where t: "t = a @ sep @ b" and a: "isFiveDigitCode a" and sep: "sep \<noteq> []"
    and sp: "list_all isSpace sep" and b: "isFiveDigitCode b"
    by (auto simp: isTwoSpacedCodes_def)
  from a t have r: "digitsN 5 t = Some (sep @ b)"
    by (auto simp: digitsN_iff isFiveDigitCode_def)
  from sep obtain c sep' where s: "sep = c # sep'" by (cases sep) auto
  with sp have c: "isSpace c" and sp': "list_all isSpace sep'" by auto
  have "skipSpaces (sep' @ b) = b" using sp' b by (rule skipSpaces_sep)
  moreover from b have "digitsN 5 b = Some []"
    by (auto simp: digitsN_iff isFiveDigitCode_def)
  ultimately show "testTwoCodes t"
    using r c by (simp add: testTwoCodes_def s)
qed

lemma continuation_not_data: "isContinuationRow parsed \<Longrightarrow> \<not> isDataRow parsed"
  by (auto simp: isContinuationRow_def isDataRow_def hasEdifactContent_def testSegmentGroup_def
      testElementCode_def trim_def skipSpaces_def KNOWN_SEGMENTS_def js_def)


lemma hasCodeShape_code: "hasCodeShape t \<longleftrightarrow> testFiveDigits t \<or> testTwoCodes t"
  by (simp add: hasCodeShape_def testFiveDigits_iff testTwoCodes_iff)

lemma processPage_rows:
  "processPage lc st pg = foldl (processRow lc (pg_pageNum pg)) st (parsedRows (pg_items pg))"
  by (simp add: processPage_def parsedRows_def groupIntoRows_def pushCurrent_def)

section \<open>The structurer: claims\<close>

text \<open>
  Claim C7. A row is classified as a section-header row exactly when both conditions
  hold: its lower-cased description contains the marker word, and at least one of its two
  status fields, after trimming, is exactly five digits or two five-digit codes separated
  by white space. A row whose description mentions the marker word but whose status
  fields do not have this shape is not a section header.
\<close>

theorem pruefidentifikator_header_iff:
  "(isPruefidentifikatorHeader lc row \<longleftrightarrow>
      contains (lc (beschreibung row)) markerWord \<and>
      (hasCodeShape (trim (statusCol1 row)) \<or> hasCodeShape (trim (statusCol2 row)))) \<and>
   (contains (lc (beschreibung row)) markerWord \<and>
    \<not> hasCodeShape (trim (statusCol1 row)) \<and> \<not> hasCodeShape (trim (statusCol2 row)) \<longrightarrow>
      \<not> isPruefidentifikatorHeader lc row)"
  by (auto simp: isPruefidentifikatorHeader_def Let_def jsIncludes_iff hasCodeShape_def
      testFiveDigits_iff testTwoCodes_iff)

theorem pruefidentifikator_header_iff_witness:
  "contains (lowerLatin1 (beschreibung fieldLabelRow)) markerWord \<and>
   \<not> hasCodeShape (trim (statusCol1 fieldLabelRow)) \<and>
   \<not> hasCodeShape (trim (statusCol2 fieldLabelRow)) \<and>
   \<not> isPruefidentifikatorHeader lowerLatin1 fieldLabelRow \<and>
   hasCodeShape (trim (statusCol1 headerRow)) \<and>
   isPruefidentifikatorHeader lowerLatin1 headerRow"
proof -
  have h1: "contains (lowerLatin1 (beschreibung fieldLabelRow)) markerWord"
    unfolding jsIncludes_iff [symmetric] by code_simp
  have h2: "\<not> hasCodeShape (trim (statusCol1 fieldLabelRow))"
    unfolding hasCodeShape_code by code_simp
  have h3: "\<not> hasCodeShape (trim (statusCol2 fieldLabelRow))"
    unfolding hasCodeShape_code by code_simp
  have h4: "contains (lowerLatin1 (beschreibung headerRow)) markerWord"
    unfolding jsIncludes_iff [symmetric] by code_simp
  have h5: "hasCodeShape (trim (statusCol1 headerRow))"
    unfolding hasCodeShape_code by code_simp
  from pruefidentifikator_header_iff [of lowerLatin1 fieldLabelRow]
    pruefidentifikator_header_iff [of lowerLatin1 headerRow] h1 h2 h3 h4 h5
  show ?thesis by blast
qed

text \<open>
  Claim C8, as stated: a continuation row (no structural content, at least one non-empty
  free-text field) that meets no prior row is dropped and creates no row. It fails for a
  row with a description and no status value: the guard for a continuation asks for a
  prior row, and without one the row falls through to the guard for a label, which
  appends it as a new label row. The page with the fragments of a section header and,
  below them, the single fragment \<open>Sendungsdaten\<close> gets a section with that label row.
\<close>

theorem continuation_dropped_counterexample:
  "isContinuationRow labelOnlyRow \<and>
   st_lastRow afterHeader = None \<and>
   st_rows afterHeader = [] \<and>
   st_rows (processRow lowerLatin1 1 afterHeader labelOnlyRow) = [labelRowOf labelOnlyRow] \<and>
   map cells.truncate (parsedRows (pg_items labelPage)) = [headerRow, labelOnlyRow] \<and>
   buildSections lowerLatin1 [labelPage] =
     [\<lparr>p_title = [], p_pruefidentifikator = [js ''21000''], p_kommunikationVon = [],
       p_statusCol1Header = [], p_statusCol2Header = [], p_pageStart = 1,
       p_rows = [labelRowOf labelOnlyRow]\<rparr>]"
  by code_simp

text \<open>
  Claim C8, amended: a continuation row that is neither a table header, a section header
  nor a metadata row and meets no prior row never extends a row, closes no section and
  raises no failure. Inside a section it is appended as a new label row, and becomes the
  pending title, when its description is not empty and both status fields are empty;
  otherwise it is dropped. Before the first section it creates no row and its
  description, if any, becomes the pending title.
\<close>

theorem continuation_without_prior_row:
  assumes "isContinuationRow parsed" and "st_lastRow st = None"
    and "\<not> isTableHeader lc parsed" and "\<not> isPruefidentifikatorHeader lc parsed"
    and "\<not> isKommunikationVon lc parsed" and "\<not> isStatusColumnHeader lc parsed"
  shows "processRow lc pageNum st parsed =
           (if st_current st = None then
              (if beschreibung parsed \<noteq> [] then st\<lparr>st_pendingTitle := beschreibung parsed\<rparr> else st)
            else if isSectionLabel parsed then
              st\<lparr>st_rows := st_rows st @ [labelRowOf parsed], st_lastRow := Some (length (st_rows st)),
                 st_pendingTitle := beschreibung parsed\<rparr>
            else st) \<and>
         take (length (st_rows st)) (st_rows (processRow lc pageNum st parsed)) = st_rows st \<and>
         st_sections (processRow lc pageNum st parsed) = st_sections st"
  using assms continuation_not_data [of parsed]
  by (auto simp: processRow_def isContinuationRow_def split: option.splits)

theorem continuation_without_prior_row_witness:
  "isContinuationRow statusOnlyRow \<and> st_lastRow afterHeader = None \<and>
   \<not> isTableHeader lowerLatin1 statusOnlyRow \<and> \<not> isPruefidentifikatorHeader lowerLatin1 statusOnlyRow \<and>
   \<not> isKommunikationVon lowerLatin1 statusOnlyRow \<and> \<not> isStatusColumnHeader lowerLatin1 statusOnlyRow \<and>
   st_current afterHeader \<noteq> None \<and> \<not> isSectionLabel statusOnlyRow \<and>
   processRow lowerLatin1 1 afterHeader statusOnlyRow = afterHeader \<and>
   isContinuationRow labelOnlyRow \<and> isSectionLabel labelOnlyRow \<and>
   \<not> isTableHeader lowerLatin1 labelOnlyRow \<and> \<not> isPruefidentifikatorHeader lowerLatin1 labelOnlyRow \<and>
   \<not> isKommunikationVon lowerLatin1 labelOnlyRow \<and> \<not> isStatusColumnHeader lowerLatin1 labelOnlyRow \<and>
   processRow lowerLatin1 1 afterHeader labelOnlyRow =
     afterHeader\<lparr>st_rows := st_rows afterHeader @ [labelRowOf labelOnlyRow],
                  st_lastRow := Some (length (st_rows afterHeader)),
                  st_pendingTitle := beschreibung labelOnlyRow\<rparr>"
proof -
  have a: "isContinuationRow statusOnlyRow" "st_lastRow afterHeader = None"
    "\<not> isTableHeader lowerLatin1 statusOnlyRow" "\<not> isPruefidentifikatorHeader lowerLatin1 statusOnlyRow"
    "\<not> isKommunikationVon lowerLatin1 statusOnlyRow" "\<not> isStatusColumnHeader lowerLatin1 statusOnlyRow"
    by code_simp+
  have b: "st_current afterHeader \<noteq> None" "\<not> isSectionLabel statusOnlyRow"
    by code_simp+
  have c: "isContinuationRow labelOnlyRow" "isSectionLabel labelOnlyRow"
    "\<not> isTableHeader lowerLatin1 labelOnlyRow" "\<not> isPruefidentifikatorHeader lowerLatin1 labelOnlyRow"
    "\<not> isKommunikationVon lowerLatin1 labelOnlyRow" "\<not> isStatusColumnHeader lowerLatin1 labelOnlyRow"
    by code_simp+
  from continuation_without_prior_row [OF a, of 1] b
  have d: "processRow lowerLatin1 1 afterHeader statusOnlyRow = afterHeader" by simp
  from continuation_without_prior_row [OF c(1) a(2) c(3-6), of 1] b c(2)
  have e: "processRow lowerLatin1 1 afterHeader labelOnlyRow =
     afterHeader\<lparr>st_rows := st_rows afterHeader @ [labelRowOf labelOnlyRow],
                  st_lastRow := Some (length (st_rows afterHeader)),
                  st_pendingTitle := beschreibung labelOnlyRow\<rparr>" by simp
  from a b c d e show ?thesis by simp
qed

end
